theory Spec2Isabelle
  imports Complex_Main "HOL-Library.Sublist" "HOL-Library.Char_ord" "HOL-Library.List_Lexorder"
begin

section \<open>Strings\<close>

text \<open>
  Python strings are modelled as HOL strings (lists of 8-bit characters), so the
  development covers ASCII text.  \<open>str.lower\<close> maps the letters A..Z to a..z and leaves
  every other character alone.
\<close>

definition lower_char :: "char \<Rightarrow> char" where
  "lower_char c =
     (case map_of (zip ''ABCDEFGHIJKLMNOPQRSTUVWXYZ'' ''abcdefghijklmnopqrstuvwxyz'') c of
        Some l \<Rightarrow> l
      | None \<Rightarrow> c)"

definition lower :: "string \<Rightarrow> string" where
  "lower s = map lower_char s"

text \<open>Python's \<open>needle in haystack\<close> on strings: contiguous substring.\<close>

fun str_in :: "string \<Rightarrow> string \<Rightarrow> bool" where
  "str_in needle [] = (needle = [])"
| "str_in needle (c # cs) = (prefix needle (c # cs) \<or> str_in needle cs)"

text \<open>\<open>' '.join(xs)\<close>\<close>

fun join_space :: "string list \<Rightarrow> string" where
  "join_space [] = []"
| "join_space [x] = x"
| "join_space (x # y # ys) = x @ '' '' @ join_space (y # ys)"

text \<open>
  \<open>s.replace(old, new)\<close>: every non-overlapping occurrence of \<open>old\<close>, scanning from
  the left.  For the empty \<open>old\<close> Python inserts \<open>new\<close> before every character and at
  the end.
\<close>

function str_replace :: "string \<Rightarrow> string \<Rightarrow> string \<Rightarrow> string" where
  "str_replace old new s =
     (if s = [] then (if old = [] then new else [])
      else if old = [] then new @ [hd s] @ str_replace old new (tl s)
      else if prefix old s then new @ str_replace old new (drop (length old) s)
      else hd s # str_replace old new (tl s))"
  by pat_completeness auto
termination
  by (relation "measure (\<lambda>(old, new, s). length s)") auto

declare str_replace.simps [simp del]

text \<open>\<open>str(n)\<close> for an integer: decimal digits, with a minus sign when negative.\<close>

definition digit_char :: "nat \<Rightarrow> char" where
  "digit_char d = ''0123456789'' ! d"

function str_nat :: "nat \<Rightarrow> string" where
  "str_nat n = (if n < 10 then [digit_char n] else str_nat (n div 10) @ [digit_char (n mod 10)])"
  by pat_completeness auto
termination
  by (relation "measure id") auto

declare str_nat.simps [simp del]

definition str_int :: "int \<Rightarrow> string" where
  "str_int i = (if i < 0 then ''-'' @ str_nat (nat (- i)) else str_nat (nat i))"

text \<open>
  Python's slice \<open>xs[:n]\<close>: the first \<open>n\<close> elements, and for a negative \<open>n\<close> all but
  the last \<open>-n\<close>.
\<close>

definition slice_to :: "int \<Rightarrow> 'a list \<Rightarrow> 'a list" where
  "slice_to n xs = (if 0 \<le> n then take (nat n) xs else take (length xs - nat (- n)) xs)"

section \<open>Regular expressions\<close>

text \<open>
  The fragment of Python's \<open>re\<close> that the configured patterns use: literals,
  alternation, concatenation and the word boundary \<open>\b\<close>.  A matcher state is the
  character before the current position (if any) and the rest of the text; \<open>rmatch\<close>
  returns every state a match of the expression can end in, so that alternatives are
  tried with backtracking as \<open>re\<close> does.
\<close>

datatype regex = Lit string | WordBoundary | Alt "regex list" | Seq "regex list"

type_synonym mstate = "char option \<times> string"

definition is_word_char :: "char \<Rightarrow> bool" where
  "is_word_char c \<longleftrightarrow>
     c \<in> set ''abcdefghijklmnopqrstuvwxyzABCDEFGHIJKLMNOPQRSTUVWXYZ0123456789_''"

definition is_word_opt :: "char option \<Rightarrow> bool" where
  "is_word_opt p = (case p of None \<Rightarrow> False | Some c \<Rightarrow> is_word_char c)"

definition next_char :: "string \<Rightarrow> char option" where
  "next_char s = (case s of [] \<Rightarrow> None | c # _ \<Rightarrow> Some c)"

definition advance :: "string \<Rightarrow> mstate \<Rightarrow> mstate" where
  "advance w st = ((if w = [] then fst st else Some (last w)), drop (length w) (snd st))"

fun rmatch :: "regex \<Rightarrow> mstate \<Rightarrow> mstate list"
  and rmatch_alt :: "regex list \<Rightarrow> mstate \<Rightarrow> mstate list"
  and rmatch_seq :: "regex list \<Rightarrow> mstate \<Rightarrow> mstate list" where
  "rmatch (Lit w) st = (if prefix w (snd st) then [advance w st] else [])"
| "rmatch WordBoundary st =
     (if is_word_opt (fst st) \<noteq> is_word_opt (next_char (snd st)) then [st] else [])"
| "rmatch (Alt rs) st = rmatch_alt rs st"
| "rmatch (Seq rs) st = rmatch_seq rs st"
| "rmatch_alt [] st = []"
| "rmatch_alt (r # rs) st = rmatch r st @ rmatch_alt rs st"
| "rmatch_seq [] st = [st]"
| "rmatch_seq (r # rs) st = concat (map (\<lambda>st'. rmatch_seq rs st') (rmatch r st))"

text \<open>\<open>re.search(pattern, text)\<close> as a truth value: a match starts at some position.\<close>

fun search_from :: "regex \<Rightarrow> char option \<Rightarrow> string \<Rightarrow> bool" where
  "search_from r p [] = (rmatch r (p, []) \<noteq> [])"
| "search_from r p (c # cs) = (rmatch r (p, c # cs) \<noteq> [] \<or> search_from r (Some c) cs)"

definition re_search :: "regex \<Rightarrow> string \<Rightarrow> bool" where
  "re_search r text = search_from r None text"

section \<open>config.py: ScraperConfig\<close>

record classifier =
  key_words :: "string list"
  context_words :: "string list"
  weight :: int

text \<open>A dict keeps insertion order, so \<open>TECH_CLASSIFIERS.items()\<close> is this list.\<close>

definition TECH_CLASSIFIERS :: "(string \<times> classifier) list" where
  "TECH_CLASSIFIERS =
     [(''weapon'',
       \<lparr>key_words = [''weapon'', ''gun'', ''rifle'', ''blaster'', ''phaser'', ''cannon'', ''sword'',
                    ''blade'', ''bomb'', ''missile'', ''torpedo'', ''laser'', ''plasma'', ''disruptor'',
                    ''armament'', ''firearm''],
        context_words = [''fires'', ''shoots'', ''armed'', ''combat'', ''warfare'', ''damage'',
                   ''destructive'', ''explosive'', ''penetrate'', ''kill''],
        weight = 3\<rparr>),
      (''vehicle'',
       \<lparr>key_words = [''ship'', ''vessel'', ''craft'', ''fighter'', ''cruiser'', ''transport'',
                    ''shuttle'', ''carrier'', ''destroyer'', ''frigate'', ''corvette'', ''dreadnought'',
                    ''starship'', ''spacecraft''],
        context_words = [''travels'', ''flies'', ''navigates'', ''crew'', ''passengers'', ''pilot'',
                   ''engine'', ''hull'', ''bridge'', ''propulsion''],
        weight = 3\<rparr>),
      (''device'',
       \<lparr>key_words = [''device'', ''gadget'', ''tool'', ''scanner'', ''communicator'', ''computer'',
                    ''console'', ''terminal'', ''apparatus'', ''instrument'', ''detector'', ''analyzer''],
        context_words = [''operates'', ''functions'', ''displays'', ''processes'', ''controls'',
                   ''interface'', ''screen'', ''data'', ''information''],
        weight = 2\<rparr>),
      (''robot'',
       \<lparr>key_words = [''droid'', ''robot'', ''android'', ''cyborg'', ''automaton'', ''mech'', ''mecha'',
                    ''synthetic'', ''artificial''],
        context_words = [''autonomous'', ''programmed'', ''intelligence'', ''sentient'', ''mechanical'',
                   ''ai'', ''artificial''],
        weight = 3\<rparr>),
      (''system'',
       \<lparr>key_words = [''system'', ''technology'', ''drive'', ''engine'', ''reactor'', ''generator'',
                    ''shield'', ''defense'', ''network'', ''grid''],
        context_words = [''powered'', ''generates'', ''operates'', ''mechanism'', ''process'', ''function'',
                   ''capability''],
        weight = 2\<rparr>),
      (''equipment'',
       \<lparr>key_words = [''armor'', ''suit'', ''equipment'', ''gear'', ''machinery'', ''hardware'',
                    ''component'', ''apparatus''],
        context_words = [''worn'', ''equipped'', ''protective'', ''enhanced'', ''designed'', ''constructed''],
        weight = 2\<rparr>)]"

definition strong :: "string list" where
  "strong = [''fictional'', ''science fiction'', ''sci-fi'', ''futuristic'', ''space'', ''alien'',
             ''time travel'', ''cyberpunk'']"

definition franchises :: "string list" where
  "franchises = [''star trek'', ''star wars'', ''battlestar galactica'', ''stargate'', ''doctor who'',
                 ''firefly'', ''babylon 5'', ''mass effect'', ''halo'', ''dune'']"

definition tech_context :: "string list" where
  "tech_context = [''spaceship'', ''energy weapon'', ''force field'', ''hyperdrive'', ''warp drive'',
                   ''cloaking device'', ''transporter'']"

text \<open>\<open>r'\b(list|index|category|timeline|chronology|history) of\b'\<close>\<close>

definition list_pages :: regex where
  "list_pages =
     Seq [WordBoundary,
          Alt [Lit ''list'', Lit ''index'', Lit ''category'', Lit ''timeline'', Lit ''chronology'',
               Lit ''history''],
          Lit '' of'', WordBoundary]"

definition person_patterns :: "regex list" where
  "person_patterns =
     [Seq [WordBoundary, Alt [Lit ''he'', Lit ''she'', Lit ''they''], Lit '' '',
           Alt [Lit ''is'', Lit ''was'', Lit ''were'', Lit ''are''], WordBoundary],
      Seq [WordBoundary, Alt [Lit ''born'', Lit ''died'', Lit ''birth'', Lit ''death''], WordBoundary],
      Seq [WordBoundary,
           Alt [Lit ''actor'', Lit ''actress'', Lit ''character'', Lit ''person'', Lit ''individual''],
           WordBoundary],
      Seq [WordBoundary, Alt [Lit ''portrayed'', Lit ''played'', Lit ''voiced''], Lit '' by'',
           WordBoundary],
      Seq [WordBoundary, Alt [Lit ''biography'', Lit ''biographical''], WordBoundary]]"

definition plot_patterns :: "regex list" where
  "plot_patterns =
     [Seq [WordBoundary, Lit ''in the '',
           Alt [Lit ''short'', Lit ''story'', Lit ''plot'', Lit ''episode'', Lit ''film'', Lit ''movie'',
                Lit ''book'', Lit ''novel'', Lit ''comic'', Lit ''television''],
           WordBoundary],
      Seq [WordBoundary, Alt [Lit ''appears'', Lit ''featured'', Lit ''introduced''], Lit '' in'',
           WordBoundary],
      Seq [WordBoundary, Alt [Lit ''storyline'', Lit ''narrative'', Lit ''plot''], WordBoundary]]"

definition skip_patterns :: "string list" where
  "skip_patterns = [''disambiguation'', ''redirect'', ''stub'', ''cleanup'', ''maintenance'',
                    ''wikipedia'', ''template'', ''user'', ''talk'', ''project'', ''portal'',
                    ''navigation'', ''infobox'']"

definition biographical_patterns :: "string list" where
  "biographical_patterns = [''biography'', ''people'', ''characters'', ''cast'', ''crew'',
                            ''actors'', ''directors'', ''writers'', ''producers'']"

definition media_patterns :: "string list" where
  "media_patterns = [''episodes'', ''seasons'', ''series'', ''films'', ''movies'', ''books'',
                     ''novels'', ''comics'']"

definition tech_patterns :: "string list" where
  "tech_patterns = [''technology'', ''weapon'', ''device'', ''equipment'', ''vehicle'',
                    ''spacecraft'', ''starship'', ''robot'', ''android'', ''cyborg'',
                    ''computer'', ''system'', ''machinery'', ''apparatus'', ''tool'',
                    ''gadget'', ''invention'', ''engineering'', ''science'', ''fictional'',
                    ''armor'', ''military'', ''space'', ''future'', ''alien'', ''laser'',
                    ''energy'', ''power'', ''transport'', ''communication'', ''medical'']"

definition MIN_CONTENT_LENGTH :: int where
  "MIN_CONTENT_LENGTH = 200"

definition MIN_CONFIDENCE_SCORE :: real where
  "MIN_CONFIDENCE_SCORE = 0.25"

definition DEFAULT_CATEGORIES :: "string list" where
  "DEFAULT_CATEGORIES = [''Fictional technology'', ''Science fiction weapons'',
                         ''Fictional spacecraft'', ''Fictional vehicles'', ''Fictional robots'']"

section \<open>classifier.py: ContentClassifier\<close>

text \<open>The loop \<open>for w in ws: if cond(w): score += k\<close>.\<close>

fun add_matches :: "int \<Rightarrow> string list \<Rightarrow> (string \<Rightarrow> bool) \<Rightarrow> int \<Rightarrow> int" where
  "add_matches k [] cond score = score"
| "add_matches k (w # ws) cond score = add_matches k ws cond (if cond w then score + k else score)"

text \<open>\<open>sum(1 for w in ws if w in text)\<close>\<close>

definition count_in :: "string list \<Rightarrow> string \<Rightarrow> int" where
  "count_in ws text = sum_list (map (\<lambda>w. 1) (filter (\<lambda>w. str_in w text) ws))"

definition type_score :: "classifier \<Rightarrow> string \<Rightarrow> int" where
  "type_score c text =
     (let keyword_matches = count_in (key_words c) text;
          score1 = keyword_matches * weight c;
          context_matches = count_in (context_words c) text;
          score2 = score1 + context_matches * 2
      in if keyword_matches > 0 \<and> context_matches > 0 then score2 + 3 else score2)"

text \<open>The loop over the classifiers, carrying \<open>best_type\<close> and \<open>best_score\<close>.\<close>

fun best_loop :: "(string \<times> classifier) list \<Rightarrow> string \<Rightarrow> string \<times> int \<Rightarrow> string \<times> int" where
  "best_loop [] text best = best"
| "best_loop ((tech_type, c) # rest) text (best_type, best_score) =
     best_loop rest text
       (if type_score c text > best_score then (tech_type, type_score c text)
        else (best_type, best_score))"

definition is_sci_fi_technology :: "string \<Rightarrow> string \<Rightarrow> string list \<Rightarrow> bool \<times> string \<times> real" where
  "is_sci_fi_technology title content categories =
     (let text = lower (title @ '' '' @ content);
          category_text = lower (join_space categories);
          score_a = add_matches 3 strong (\<lambda>i. str_in i text \<or> str_in i category_text) 0;
          score_b = add_matches 4 franchises (\<lambda>f. str_in f text \<or> str_in f category_text) score_a;
          sci_fi_score = add_matches 2 tech_context (\<lambda>t. str_in t text) score_b;
          best = best_loop TECH_CLASSIFIERS text (''technology'', 0);
          is_sci_fi = (sci_fi_score \<ge> 2);
          is_tech = (snd best \<ge> 2);
          confidence = min 1 (real_of_int (sci_fi_score + snd best) / 8)
      in (is_sci_fi \<and> is_tech, fst best, confidence))"

text \<open>The loop over the person patterns, which returns at the first match.\<close>

fun any_search :: "regex list \<Rightarrow> string \<Rightarrow> bool" where
  "any_search [] text = False"
| "any_search (p # ps) text = (if re_search p text then True else any_search ps text)"

definition is_excluded_content :: "string \<Rightarrow> string \<Rightarrow> bool" where
  "is_excluded_content title content =
     (let text = lower (title @ '' '' @ content) in
      if re_search list_pages text then True
      else if any_search person_patterns text then True
      else
        (let plot_matches = sum_list (map (\<lambda>p. 1::int) (filter (\<lambda>p. re_search p text) plot_patterns))
         in if plot_matches > 2 then True else False))"

text \<open>\<open>any(pattern in s for pattern in patterns)\<close>\<close>

definition any_in :: "string list \<Rightarrow> string \<Rightarrow> bool" where
  "any_in patterns s = list_ex (\<lambda>pattern. str_in pattern s) patterns"

definition is_relevant_subcategory :: "string \<Rightarrow> bool" where
  "is_relevant_subcategory category_name =
     (let category_lower = lower category_name in
      if any_in skip_patterns category_lower then False
      else if any_in biographical_patterns category_lower
              \<and> \<not> any_in [''technology'', ''weapon'', ''device'', ''equipment'', ''vehicle'', ''robot'']
                     category_lower
           then False
      else if any_in media_patterns category_lower
              \<and> \<not> any_in [''technology'', ''weapon'', ''device'', ''equipment'', ''vehicle'', ''robot'',
                           ''fictional''] category_lower
           then False
      else
        (let has_tech_term = any_in tech_patterns category_lower;
             is_fictional = (str_in ''fictional'' category_lower
                              \<or> str_in ''science fiction'' category_lower)
         in has_tech_term \<or> is_fictional))"

text \<open>
  The classifier as the specification words it, for comparison with the code: counts
  of the vocabulary words present, a closed formula for each label's score, and the
  winner chosen as the first label that reaches the maximum when that maximum is
  positive.
\<close>

definition present :: "string list \<Rightarrow> (string \<Rightarrow> bool) \<Rightarrow> int" where
  "present ws cond = int (card {w \<in> set ws. cond w})"

definition spec_domain_score :: "string \<Rightarrow> string \<Rightarrow> int" where
  "spec_domain_score text category_text =
     3 * present strong (\<lambda>w. str_in w text \<or> str_in w category_text)
     + 4 * present franchises (\<lambda>w. str_in w text \<or> str_in w category_text)
     + 2 * present tech_context (\<lambda>w. str_in w text)"

definition spec_label_score :: "classifier \<Rightarrow> string \<Rightarrow> int" where
  "spec_label_score c text =
     present (key_words c) (\<lambda>w. str_in w text) * weight c
     + present (context_words c) (\<lambda>w. str_in w text) * 2
     + (if 1 \<le> present (key_words c) (\<lambda>w. str_in w text)
           \<and> 1 \<le> present (context_words c) (\<lambda>w. str_in w text) then 3 else 0)"

definition spec_best :: "string \<Rightarrow> string \<times> int" where
  "spec_best text =
     (let scores = map (\<lambda>(l, c). (l, spec_label_score c text)) TECH_CLASSIFIERS;
          top = Max (insert 0 (snd ` set scores))
      in if top = 0 then (''technology'', 0)
         else (fst (hd (filter (\<lambda>(l, v). v = top) scores)), top))"

definition spec_classify :: "string \<Rightarrow> string \<Rightarrow> string list \<Rightarrow> bool \<times> string \<times> real" where
  "spec_classify title body categories =
     (let text = lower (title @ '' '' @ body);
          category_text = lower (join_space categories);
          domain = spec_domain_score text category_text;
          best = spec_best text
      in (domain \<ge> 2 \<and> snd best \<ge> 2, fst best, min 1 (real_of_int (domain + snd best) / 8)))"

definition vocabulary :: "string list" where
  "vocabulary =
     strong @ franchises @ tech_context
     @ concat (map (\<lambda>(l, c). key_words c @ context_words c) TECH_CLASSIFIERS)"

section \<open>models.py: TechEntry\<close>

record TechEntry =
  name :: string
  description :: string
  url :: string
  category :: string
  subcategory :: string
  content_length :: int
  scraped_at :: string
  tech_type :: string

text \<open>
  The dataclass constructor followed by \<open>__post_init__\<close>.  Every field can be passed
  to the constructor; \<open>__post_init__\<close> then overwrites \<open>content_length\<close> with
  \<open>len(description)\<close> and \<open>scraped_at\<close> with the current clock reading \<open>now\<close>
  (\<open>datetime.now().isoformat()\<close>).
\<close>

definition new_TechEntry ::
  "string \<Rightarrow> string \<Rightarrow> string \<Rightarrow> string \<Rightarrow> string \<Rightarrow> string \<Rightarrow> int \<Rightarrow> string \<Rightarrow> string
     \<Rightarrow> TechEntry" where
  "new_TechEntry now n d u c sub cl sa tt =
     \<lparr>name = n, description = d, url = u, category = c, subcategory = sub,
      content_length = int (length d), scraped_at = now, tech_type = tt\<rparr>"

section \<open>utils.py: CheckpointManager\<close>

text \<open>
  The dict that \<open>save_checkpoint\<close> writes.  \<open>asdict(entry)\<close> has exactly the fields of
  the entry, so a serialised entry is modelled by the record itself.
\<close>

record checkpoint_data =
  cp_visited_pages :: "string list"
  cp_visited_categories :: "string list"
  cp_scraped_entries :: "TechEntry list"
  cp_failed_pages :: "string list"
  cp_timestamp :: string

text \<open>
  A file of the checkpoint directory is missing, holds a complete dump, or holds an
  incomplete one: \<open>open(file, 'w')\<close> empties the file before anything is written, and
  a dump that stops early leaves a proper prefix, which neither \<open>json.load\<close> nor
  \<open>pickle.load\<close> accepts.
\<close>

datatype file_content = Missing | Truncated | Written checkpoint_data

record checkpoint_dir =
  json_file :: file_content
  pickle_file :: file_content

text \<open>
  \<open>list(s)\<close> for a set enumerates its elements in an order Python does not specify;
  the model takes the sorted order.
\<close>

definition checkpoint_of ::
  "string \<Rightarrow> string set \<Rightarrow> string set \<Rightarrow> TechEntry list \<Rightarrow> string list \<Rightarrow> checkpoint_data" where
  "checkpoint_of now vis_pages vis_categories entries failed =
     \<lparr>cp_visited_pages = sorted_list_of_set vis_pages,
      cp_visited_categories = sorted_list_of_set vis_categories,
      cp_scraped_entries = entries,
      cp_failed_pages = failed,
      cp_timestamp = now\<rparr>"

text \<open>
  The four writes of \<open>save_checkpoint\<close> in order: the JSON file is opened for writing
  (and emptied), the JSON dump completes, the pickle file is opened (and emptied),
  the pickle dump completes.  \<open>save_upto k\<close> performs the first \<open>k\<close> of them: a save
  that fails after \<open>k\<close> writes.  A save of which fewer than four writes complete
  raises the error of the write that failed, an \<open>OSError\<close>; nothing in
  \<open>save_checkpoint\<close> catches it.
\<close>

definition save_writes :: "checkpoint_data \<Rightarrow> (checkpoint_dir \<Rightarrow> checkpoint_dir) list" where
  "save_writes d =
     [\<lambda>dir. dir\<lparr>json_file := Truncated\<rparr>,
      \<lambda>dir. dir\<lparr>json_file := Written d\<rparr>,
      \<lambda>dir. dir\<lparr>pickle_file := Truncated\<rparr>,
      \<lambda>dir. dir\<lparr>pickle_file := Written d\<rparr>]"

definition save_upto :: "nat \<Rightarrow> checkpoint_data \<Rightarrow> checkpoint_dir \<Rightarrow> checkpoint_dir" where
  "save_upto k d dir = fold (\<lambda>w x. w x) (take k (save_writes d)) dir"

text \<open>
  \<open>CheckpointManager.load_checkpoint\<close>: the pickle file when it exists, else the JSON
  file, else the empty dict; any exception while reading gives the empty dict too.
  \<open>None\<close> stands for the empty dict.
\<close>

definition manager_load_checkpoint :: "checkpoint_dir \<Rightarrow> checkpoint_data option" where
  "manager_load_checkpoint dir =
     (case pickle_file dir of
        Written d \<Rightarrow> Some d
      | Truncated \<Rightarrow> None
      | Missing \<Rightarrow>
          (case json_file dir of
             Written d \<Rightarrow> Some d
           | Truncated \<Rightarrow> None
           | Missing \<Rightarrow> None))"

section \<open>utils.py: DataExporter.generate_statistics\<close>

record statistics =
  total_entries :: int
  stat_categories :: "string \<rightharpoonup> int"
  stat_tech_types :: "string \<rightharpoonup> int"
  min_length :: int
  max_length :: int
  avg_length :: real
  quality_entries :: int
  stat_failed_pages :: int
  stat_processed_pages :: int
  stat_visited_categories :: int
  success_rate :: real

text \<open>\<open>d.get(k, 0)\<close>\<close>

definition get0 :: "(string \<rightharpoonup> int) \<Rightarrow> string \<Rightarrow> int" where
  "get0 d k = (case d k of None \<Rightarrow> 0 | Some v \<Rightarrow> v)"

text \<open>The counting loop over the entries, with its three accumulators.\<close>

fun stats_loop ::
  "TechEntry list \<Rightarrow> (string \<rightharpoonup> int) \<times> (string \<rightharpoonup> int) \<times> int list
     \<Rightarrow> (string \<rightharpoonup> int) \<times> (string \<rightharpoonup> int) \<times> int list" where
  "stats_loop [] acc = acc"
| "stats_loop (e # es) (cats, tts, lens) =
     stats_loop es
       (cats(category e \<mapsto> get0 cats (category e) + 1),
        tts(tech_type e \<mapsto> get0 tts (tech_type e) + 1),
        lens @ [int (length (description e))])"

text \<open>\<open>min(xs) if xs else 0\<close> and \<open>max(xs) if xs else 0\<close>\<close>

definition min_or0 :: "int list \<Rightarrow> int" where
  "min_or0 xs = (case xs of [] \<Rightarrow> 0 | x # r \<Rightarrow> fold min r x)"

definition max_or0 :: "int list \<Rightarrow> int" where
  "max_or0 xs = (case xs of [] \<Rightarrow> 0 | x # r \<Rightarrow> fold max r x)"

text \<open>
  The result is \<open>None\<close> for the empty dict returned on an empty entry list.  Python's
  true division yields a float; the model computes the same quotient over the reals.
\<close>

definition generate_statistics ::
  "TechEntry list \<Rightarrow> string set \<Rightarrow> string set \<Rightarrow> string list \<Rightarrow> statistics option" where
  "generate_statistics scraped_entries vis_categories vis_pages failed =
     (if scraped_entries = [] then None
      else
        (case stats_loop scraped_entries (Map.empty, Map.empty, []) of
           (cats, tts, description_lengths) \<Rightarrow>
             Some \<lparr>total_entries = int (length scraped_entries),
                   stat_categories = cats,
                   stat_tech_types = tts,
                   min_length = min_or0 description_lengths,
                   max_length = max_or0 description_lengths,
                   avg_length =
                     (if description_lengths = [] then 0
                      else real_of_int (sum_list description_lengths)
                             / real_of_int (int (length description_lengths))),
                   quality_entries =
                     int (length (filter (\<lambda>e. 100 \<le> length (description e)) scraped_entries)),
                   stat_failed_pages = int (length failed),
                   stat_processed_pages = int (card vis_pages),
                   stat_visited_categories = int (card vis_categories),
                   success_rate =
                     real_of_int (int (card vis_pages) - int (length failed))
                       / real_of_int (max (int (card vis_pages)) 1) * 100\<rparr>))"

section \<open>api_client.py: the collaborators\<close>

text \<open>
  A category member as the API returns it: the namespace may be absent (the code
  reads it with a default), the title is always there.
\<close>

record member =
  member_ns :: "int option"
  member_title :: string

record page_data =
  pd_title :: string
  pd_extract :: string
  pd_url :: string
  pd_categories :: "string list"

text \<open>
  Exceptions by the class the handlers look at: \<open>KeyboardInterrupt\<close>, a subclass of
  \<open>Exception\<close> (with a message), or another \<open>BaseException\<close> that no handler of the
  scraper catches.
\<close>

datatype exn = KeyboardInterrupt | Exception string | OtherBaseException string

text \<open>
  \<open>CheckpointManager.save_checkpoint\<close>, of which \<open>k\<close> writes complete: the directory
  it leaves, and the exception it raises when the disk fails before the fourth.
\<close>

definition manager_save_checkpoint ::
  "nat \<Rightarrow> string \<Rightarrow> string set \<Rightarrow> string set \<Rightarrow> TechEntry list \<Rightarrow> string list
     \<Rightarrow> checkpoint_dir \<Rightarrow> exn option \<times> checkpoint_dir" where
  "manager_save_checkpoint k now vis_pages vis_categories entries failed dir =
     (if 4 \<le> k then None else Some (Exception ''OSError''),
      save_upto k (checkpoint_of now vis_pages vis_categories entries failed) dir)"

text \<open>
  The outside world.  Both fetches answer by the moment of the call (the number of
  effects so far), so the same request can get different answers during a run.  The
  category fetch runs on the main thread and may raise; a page fetch runs on a pool
  thread, where only subclasses of \<open>Exception\<close> arise (\<open>Inl\<close> with the message).
  \<open>now\<close> is the clock, read by \<open>datetime.now().isoformat()\<close>.  The disk decides how
  many of the four writes of a flush begun at a given moment complete
  (\<open>writes_done\<close>, four or more for all of them) and whether the files of an export
  begun at a given moment can be written (\<open>export_fails\<close>).
\<close>

record env =
  get_category_members :: "nat \<Rightarrow> string \<Rightarrow> int \<Rightarrow> exn + member list"
  get_page_content :: "nat \<Rightarrow> string \<Rightarrow> string + page_data option"
  now :: "nat \<Rightarrow> string"
  writes_done :: "nat \<Rightarrow> nat"
  export_fails :: "nat \<Rightarrow> bool"

section \<open>scraper.py: WikipediaScraper\<close>

text \<open>
  What the scraper does to the outside: requests for the members of a category (with
  the limit, and the depth of the call that asked), requests for a page, checkpoint
  flushes and exports.
\<close>

datatype event =
    FetchMembers string int int
  | FetchPage string
  | SaveCheckpoint
  | ExportData "TechEntry list"

record settings =
  max_workers :: int
  max_category_depth :: int
  max_subcategories_per_category :: int
  max_pages_per_category :: int

text \<open>
  The scraper object together with the checkpoint directory it writes, the effects
  so far and the number of clock readings so far.
\<close>

record scraper =
  visited_pages :: "string set"
  visited_categories :: "string set"
  scraped_entries :: "TechEntry list"
  failed_pages :: "string list"
  checkpoints :: checkpoint_dir
  events :: "event list"
  ticks :: nat

definition read_clock :: "env \<Rightarrow> scraper \<Rightarrow> string \<times> scraper" where
  "read_clock e s = (now e (ticks s), s\<lparr>ticks := ticks s + 1\<rparr>)"

text \<open>\<open>TechEntry(**entry)\<close> for every serialised entry, each reading the clock.\<close>

fun rebuild_entries :: "env \<Rightarrow> TechEntry list \<Rightarrow> scraper \<Rightarrow> TechEntry list \<times> scraper" where
  "rebuild_entries e [] s = ([], s)"
| "rebuild_entries e (d # ds) s =
     (case read_clock e s of
        (t, s1) \<Rightarrow>
          (case rebuild_entries e ds s1 of
             (rest, s2) \<Rightarrow>
               (new_TechEntry t (name d) (description d) (url d) (category d) (subcategory d)
                  (content_length d) (scraped_at d) (tech_type d) # rest, s2)))"

definition load_checkpoint :: "env \<Rightarrow> scraper \<Rightarrow> scraper" where
  "load_checkpoint e s =
     (case manager_load_checkpoint (checkpoints s) of
        None \<Rightarrow> s
      | Some d \<Rightarrow>
          (case rebuild_entries e (cp_scraped_entries d)
                  (s\<lparr>visited_pages := set (cp_visited_pages d),
                     visited_categories := set (cp_visited_categories d),
                     failed_pages := cp_failed_pages d\<rparr>) of
             (entries, s1) \<Rightarrow> s1\<lparr>scraped_entries := entries\<rparr>))"

text \<open>
  A flush and an export as the scraper issues them: the exception raised, if any,
  and the state left.  The effect recorded is the call; whether its writes complete
  is for the disk to say.  Neither method has a handler of its own.
\<close>

definition save_checkpoint :: "env \<Rightarrow> scraper \<Rightarrow> exn option \<times> scraper" where
  "save_checkpoint e s =
     (case read_clock e s of
        (t, s1) \<Rightarrow>
          (case manager_save_checkpoint (writes_done e (length (events s1))) t (visited_pages s1)
                  (visited_categories s1) (scraped_entries s1) (failed_pages s1) (checkpoints s1) of
             (raised, dir) \<Rightarrow>
               (raised, s1\<lparr>checkpoints := dir, events := events s1 @ [SaveCheckpoint]\<rparr>)))"

definition export_data :: "env \<Rightarrow> scraper \<Rightarrow> exn option \<times> scraper" where
  "export_data e s =
     (case read_clock e s of
        (t, s1) \<Rightarrow>
          (if export_fails e (length (events s1)) then Some (Exception ''OSError'') else None,
           s1\<lparr>events := events s1 @ [ExportData (scraped_entries s1)]\<rparr>))"

text \<open>
  \<open>process_page\<close>, first the block under the lock: it answers whether the title was
  already visited and marks it.
\<close>

definition check_and_mark :: "string \<Rightarrow> scraper \<Rightarrow> bool \<times> scraper" where
  "check_and_mark page_title s =
     (if page_title \<in> visited_pages s then (True, s)
      else (False, s\<lparr>visited_pages := insert page_title (visited_pages s)\<rparr>))"

text \<open>Then the \<open>try\<close> block with its handler.\<close>

definition fetch_and_classify :: "env \<Rightarrow> string \<Rightarrow> string \<Rightarrow> scraper \<Rightarrow> TechEntry list \<times> scraper" where
  "fetch_and_classify e page_title cat s =
     (let s1 = s\<lparr>events := events s @ [FetchPage page_title]\<rparr> in
      case get_page_content e (length (events s)) page_title of
        Inl msg \<Rightarrow> ([], s1\<lparr>failed_pages := failed_pages s1 @ [page_title]\<rparr>)
      | Inr None \<Rightarrow> ([], s1)
      | Inr (Some pd) \<Rightarrow>
          (if int (length (pd_extract pd)) < MIN_CONTENT_LENGTH then ([], s1)
           else if is_excluded_content (pd_title pd) (pd_extract pd) then ([], s1)
           else
             (case is_sci_fi_technology (pd_title pd) (pd_extract pd) (pd_categories pd) of
                (is_sci_fi_tech, tech, confidence) \<Rightarrow>
                  if \<not> is_sci_fi_tech then ([], s1)
                  else if confidence < MIN_CONFIDENCE_SCORE then ([], s1)
                  else
                    (case read_clock e s1 of
                       (t, s2) \<Rightarrow>
                         ([new_TechEntry t (pd_title pd) (pd_extract pd) (pd_url pd) cat
                             [] 0 [] tech], s2)))))"

definition process_page :: "env \<Rightarrow> string \<Rightarrow> string \<Rightarrow> scraper \<Rightarrow> TechEntry list \<times> scraper" where
  "process_page e page_title cat s =
     (case check_and_mark page_title s of
        (True, s1) \<Rightarrow> ([], s1)
      | (False, s1) \<Rightarrow> fetch_and_classify e page_title cat s1)"

text \<open>
  The pool of workers over the pages of one category.  The model runs the pages one
  after the other in the order of submission and consumes each result at once; the
  pool may interleave them in any other order (see \<open>run_pool\<close> below).  A periodic
  flush that raises is caught by the handler around the result and the loop goes on.
\<close>

fun process_pages :: "env \<Rightarrow> string list \<Rightarrow> string \<Rightarrow> int \<Rightarrow> scraper \<Rightarrow> int \<times> scraper" where
  "process_pages e [] cat entries_found s = (entries_found, s)"
| "process_pages e (t # ts) cat entries_found s =
     (case process_page e t cat s of
        (entries, s1) \<Rightarrow>
          if entries \<noteq> [] then
            (let s2 = s1\<lparr>scraped_entries := scraped_entries s1 @ entries\<rparr>;
                 found = entries_found + int (length entries);
                 s3 = (if found mod 10 = 0 then snd (save_checkpoint e s2) else s2)
             in process_pages e ts cat found s3)
          else process_pages e ts cat entries_found s1)"

definition ns_or0 :: "member \<Rightarrow> int" where
  "ns_or0 m = (case member_ns m of None \<Rightarrow> 0 | Some n \<Rightarrow> n)"

definition category_depth_key :: "string \<Rightarrow> int \<Rightarrow> string" where
  "category_depth_key normalized_category current_depth =
     normalized_category @ ''_'' @ str_int current_depth"

text \<open>
  \<open>scrape_category\<close> and its loop over the subcategories, which calls it again one
  level deeper.  Each returns the number of entries found, or the exception that
  leaves it, together with the state as changed so far.  A handler for \<open>Exception\<close>
  lets any other exception through.  The pauses between requests change nothing and
  are left out.  The number of levels still allowed below a depth decreases along the
  recursion.
\<close>

definition remaining_depth :: "settings \<Rightarrow> int \<Rightarrow> nat" where
  "remaining_depth cfg d = nat (max_category_depth cfg - d + 1)"

function scrape_category ::
    "settings \<Rightarrow> env \<Rightarrow> string \<Rightarrow> int \<Rightarrow> int \<Rightarrow> scraper \<Rightarrow> (exn + int) \<times> scraper"
  and scrape_subcategories ::
    "settings \<Rightarrow> env \<Rightarrow> member list \<Rightarrow> int \<Rightarrow> int \<Rightarrow> scraper \<Rightarrow> (exn + int) \<times> scraper" where
  "scrape_category cfg e category_name max_pages current_depth s =
     (let normalized_category = str_replace ''Category:'' [] category_name in
      if current_depth > max_category_depth cfg then (Inr 0, s)
      else if category_depth_key normalized_category current_depth \<in> visited_categories s
      then (Inr 0, s)
      else
        (let s1 = s\<lparr>visited_categories :=
                      insert (category_depth_key normalized_category current_depth)
                        (visited_categories s)\<rparr>
         in if current_depth > 0 \<and> normalized_category \<in> visited_categories s1 then (Inr 0, s1)
            else
              (let limit = min max_pages (max_pages_per_category cfg);
                   s2 = s1\<lparr>events := events s1 @ [FetchMembers normalized_category limit current_depth]\<rparr>
               in case get_category_members e (length (events s1)) normalized_category limit of
                    Inl err \<Rightarrow> (Inl err, s2)
                  | Inr members \<Rightarrow>
                      if members = [] then (Inr 0, s2)
                      else
                        (let pages = filter (\<lambda>m. ns_or0 m = 0) members;
                             subcategories =
                               slice_to (max_subcategories_per_category cfg)
                                 (filter (\<lambda>m. ns_or0 m = 14) members);
                             done_pages =
                               (if pages \<noteq> [] then process_pages e (map member_title pages) category_name 0 s2
                                else (0, s2))
                         in if current_depth < max_category_depth cfg
                            then scrape_subcategories cfg e subcategories current_depth
                                   (fst done_pages) (snd done_pages)
                            else (Inr (fst done_pages), snd done_pages)))))"
| "scrape_subcategories cfg e [] current_depth entries_found s = (Inr entries_found, s)"
| "scrape_subcategories cfg e (subcat # rest) current_depth entries_found s =
     (let subcat_name = member_title subcat in
      if is_relevant_subcategory subcat_name then
        (case scrape_category cfg e subcat_name (min 300 (max_pages_per_category cfg div 2))
                (current_depth + 1) s of
           (Inr subcat_entries, s1) \<Rightarrow>
             scrape_subcategories cfg e rest current_depth (entries_found + subcat_entries) s1
         | (Inl (Exception msg), s1) \<Rightarrow>
             scrape_subcategories cfg e rest current_depth entries_found s1
         | (Inl err, s1) \<Rightarrow> (Inl err, s1))
      else scrape_subcategories cfg e rest current_depth entries_found s)"
  by pat_completeness auto
termination
  by (relation "inv_image (less_than <*lex*> less_than) (\<lambda>x. case x of
          Inl (cfg, e, n, mp, d, s) \<Rightarrow> (2 * remaining_depth cfg d, 0)
        | Inr (cfg, e, subs, d, found, s) \<Rightarrow> (2 * remaining_depth cfg (d + 1) + 1, length subs))")
     (auto simp: remaining_depth_def)

declare scrape_category.simps [simp del]

text \<open>
  The loop of \<open>scrape_all\<close> over the start categories.  It ends normally
  (\<open>None\<close>) or with the exception that leaves the inner \<open>try\<close>.  The flush after a
  category is inside that \<open>try\<close>: when it raises, the handler logs it and the loop
  goes on to the next category.
\<close>

fun scrape_all_loop ::
  "settings \<Rightarrow> env \<Rightarrow> string list \<Rightarrow> int \<Rightarrow> scraper \<Rightarrow> exn option \<times> scraper" where
  "scrape_all_loop cfg e [] max_entries s = (None, s)"
| "scrape_all_loop cfg e (cat # rest) max_entries s =
     (if int (length (scraped_entries s)) \<ge> max_entries then (None, s)
      else
        (case scrape_category cfg e cat 500 0 s of
           (Inr entries_found, s1) \<Rightarrow>
             scrape_all_loop cfg e rest max_entries (snd (save_checkpoint e s1))
         | (Inl (Exception msg), s1) \<Rightarrow> scrape_all_loop cfg e rest max_entries s1
         | (Inl err, s1) \<Rightarrow> (Some err, s1)))"

text \<open>
  \<open>scrape_all\<close>: the loop, the two handlers of the outer \<open>try\<close> and the \<open>finally\<close>
  block.  The result carries the exception that leaves \<open>scrape_all\<close>, if any.  In
  the \<open>finally\<close> block the flush and the export are two plain calls: when the flush
  raises, the export is not reached and that exception leaves; when the export
  raises, that exception leaves; otherwise what the handlers did not catch goes on.
\<close>

definition scrape_all ::
  "settings \<Rightarrow> env \<Rightarrow> string list option \<Rightarrow> int \<Rightarrow> scraper \<Rightarrow> exn option \<times> scraper" where
  "scrape_all cfg e start_categories max_entries s =
     (let cats = (case start_categories of None \<Rightarrow> DEFAULT_CATEGORIES | Some cs \<Rightarrow> cs) in
      case scrape_all_loop cfg e cats max_entries s of
        (raised, s1) \<Rightarrow>
          (let propagating =
                 (case raised of
                    Some KeyboardInterrupt \<Rightarrow> None
                  | Some (Exception msg) \<Rightarrow> None
                  | other \<Rightarrow> other)
           in case save_checkpoint e s1 of
                (Some err, s2) \<Rightarrow> (Some err, s2)
              | (None, s2) \<Rightarrow>
                  (case export_data e s2 of
                     (Some err, s3) \<Rightarrow> (Some err, s3)
                   | (None, s3) \<Rightarrow> (propagating, s3))))"

text \<open>\<open>WikipediaScraper.__init__\<close>: empty collections, then the checkpoint is loaded.\<close>

definition init_scraper :: "env \<Rightarrow> checkpoint_dir \<Rightarrow> scraper" where
  "init_scraper e dir =
     load_checkpoint e
       \<lparr>visited_pages = {}, visited_categories = {}, scraped_entries = [], failed_pages = [],
        checkpoints = dir, events = [], ticks = 0\<rparr>"

text \<open>
  The pool of workers, step by step.  A submitted call of \<open>process_page\<close> first runs
  the block under the lock, in one step since the lock excludes every other holder,
  and either finishes with no entry or goes on, with the title marked; its second
  step is the \<open>try\<close> block.  A schedule names the worker that moves next, so that the
  steps of different calls interleave in any order.
\<close>

datatype worker = Submitted string string | Marked string string | Finished "TechEntry list"

fun worker_step :: "env \<Rightarrow> worker \<Rightarrow> scraper \<Rightarrow> worker \<times> scraper" where
  "worker_step e (Submitted t c) s =
     (case check_and_mark t s of
        (True, s1) \<Rightarrow> (Finished [], s1)
      | (False, s1) \<Rightarrow> (Marked t c, s1))"
| "worker_step e (Marked t c) s =
     (case fetch_and_classify e t c s of (entries, s1) \<Rightarrow> (Finished entries, s1))"
| "worker_step e (Finished entries) s = (Finished entries, s)"

definition pool_step :: "env \<Rightarrow> nat \<Rightarrow> worker list \<times> scraper \<Rightarrow> worker list \<times> scraper" where
  "pool_step e i c =
     (if i < length (fst c)
      then (case worker_step e (fst c ! i) (snd c) of (w, s1) \<Rightarrow> ((fst c)[i := w], s1))
      else c)"

fun run_pool :: "env \<Rightarrow> nat list \<Rightarrow> worker list \<times> scraper \<Rightarrow> worker list \<times> scraper" where
  "run_pool e [] c = c"
| "run_pool e (i # schedule) c = run_pool e schedule (pool_step e i c)"

definition submit :: "(string \<times> string) list \<Rightarrow> worker list" where
  "submit calls = map (\<lambda>(t, c). Submitted t c) calls"

section \<open>Properties of a run\<close>

text \<open>A worker past the lock and about to fetch the given title.\<close>

definition about_to_fetch :: "string \<Rightarrow> worker \<Rightarrow> bool" where
  "about_to_fetch t w = (case w of Marked t' c \<Rightarrow> t' = t | _ \<Rightarrow> False)"

text \<open>
  What holds of a pool for a title at every moment: the workers about to fetch it
  and the requests already issued for it since the start are together at most one,
  and none unless the title has been marked since the start.
\<close>

definition pool_inv :: "string \<Rightarrow> scraper \<Rightarrow> worker list \<times> scraper \<Rightarrow> bool" where
  "pool_inv t s0 c \<longleftrightarrow>
     visited_pages s0 \<subseteq> visited_pages (snd c)
     \<and> (\<exists>new. events (snd c) = events s0 @ new
            \<and> length (filter (about_to_fetch t) (fst c)) + count_list new (FetchPage t)
                \<le> (if t \<in> visited_pages (snd c) \<and> t \<notin> visited_pages s0 then 1 else 0))"

text \<open>A composite key: a normalized category name, an underscore and a depth.\<close>

definition is_composite :: "string \<Rightarrow> bool" where
  "is_composite k \<longleftrightarrow> (\<exists>n d. k = category_depth_key (str_replace ''Category:'' [] n) d)"

text \<open>
  How the scraper state may change during a run: the visited sets and the entry list
  only grow, as does the list of failed pages, every new category key is composite, and every new request for the
  members of a category comes from a call within the depth bound.
\<close>

definition grows :: "settings \<Rightarrow> scraper \<Rightarrow> scraper \<Rightarrow> bool" where
  "grows cfg s s' \<longleftrightarrow>
     visited_pages s \<subseteq> visited_pages s'
     \<and> visited_categories s \<subseteq> visited_categories s'
     \<and> (\<forall>k \<in> visited_categories s' - visited_categories s. is_composite k)
     \<and> prefix (scraped_entries s) (scraped_entries s')
     \<and> prefix (failed_pages s) (failed_pages s')
     \<and> (\<exists>evs. events s' = events s @ evs
            \<and> (\<forall>n l d. FetchMembers n l d \<in> set evs \<longrightarrow> d \<le> max_category_depth cfg))"

section \<open>Example inputs\<close>

definition example_settings :: settings where
  "example_settings =
     \<lparr>max_workers = 4, max_category_depth = 1, max_subcategories_per_category = 5,
      max_pages_per_category = 5000\<rparr>"

definition empty_dir :: checkpoint_dir where
  "empty_dir = \<lparr>json_file = Missing, pickle_file = Missing\<rparr>"

text \<open>A world where every category is empty and no page exists.\<close>

definition quiet_env :: env where
  "quiet_env =
     \<lparr>get_category_members = (\<lambda>t c l. Inr []),
      get_page_content = (\<lambda>t p. Inr None),
      now = (\<lambda>t. ''2024-01-02T00:00:00''),
      writes_done = (\<lambda>t. 4),
      export_fails = (\<lambda>t. False)\<rparr>"

text \<open>A world where the first category request is interrupted from the keyboard.\<close>

definition interrupting_env :: env where
  "interrupting_env = quiet_env\<lparr>get_category_members := (\<lambda>t c l. Inl KeyboardInterrupt)\<rparr>"



definition lightsaber :: TechEntry where
  "lightsaber =
     new_TechEntry ''2024-01-01T00:00:00'' ''Lightsaber''
       ''A lightsaber is a fictional energy sword featured in the Star Wars universe.''
       ''https://en.wikipedia.org/wiki/Lightsaber'' ''Science fiction weapons'' [] 0 [] ''weapon''"

text \<open>A scraper that has accepted one entry, on the first of January.\<close>

definition one_entry_scraper :: scraper where
  "one_entry_scraper =
     \<lparr>visited_pages = {''Lightsaber'', ''Luke Skywalker''},
      visited_categories = {''Science fiction weapons_0''},
      scraped_entries = [lightsaber],
      failed_pages = [''Luke Skywalker''],
      checkpoints = empty_dir, events = [], ticks = 0\<rparr>"

section \<open>Statistics\<close>

text \<open>
  C9.  For a non-empty entry list the statistics exist and carry the processing
  counters with success rate (processed - failed) / max(processed, 1) * 100.  For three
  entries with description lengths 50, 150, 300 and types weapon, weapon, device the
  report has total 3, type counts weapon 2 and device 1, minimum 50, maximum 300,
  average 500/3 (166.67 up to rounding) and two quality entries.
\<close>

theorem generate_statistics_correct:
  "(scraped \<noteq> [] \<longrightarrow>
      (\<exists>st. generate_statistics scraped vc vp fp = Some st
         \<and> stat_failed_pages st = int (length fp)
         \<and> stat_processed_pages st = int (card vp)
         \<and> stat_visited_categories st = int (card vc)
         \<and> success_rate st =
             real_of_int (int (card vp) - int (length fp))
               / real_of_int (max (int (card vp)) 1) * 100))
   \<and> (length (description e1) = 50 \<and> length (description e2) = 150
        \<and> length (description e3) = 300
        \<and> tech_type e1 = ''weapon'' \<and> tech_type e2 = ''weapon'' \<and> tech_type e3 = ''device'' \<longrightarrow>
      (\<exists>st. generate_statistics [e1, e2, e3] vc vp fp = Some st
         \<and> total_entries st = 3
         \<and> stat_tech_types st = [''weapon'' \<mapsto> 2, ''device'' \<mapsto> 1]
         \<and> min_length st = 50 \<and> max_length st = 300
         \<and> avg_length st = 500 / 3
         \<and> \<bar>avg_length st - 166.67\<bar> < 0.01
         \<and> quality_entries st = 2))"
proof (intro conjI impI)
  assume "scraped \<noteq> []"
  then show "\<exists>st. generate_statistics scraped vc vp fp = Some st
         \<and> stat_failed_pages st = int (length fp)
         \<and> stat_processed_pages st = int (card vp)
         \<and> stat_visited_categories st = int (card vc)
         \<and> success_rate st =
             real_of_int (int (card vp) - int (length fp))
               / real_of_int (max (int (card vp)) 1) * 100"
    by (simp add: generate_statistics_def split: prod.splits)
next
  assume h: "length (description e1) = 50 \<and> length (description e2) = 150
        \<and> length (description e3) = 300
        \<and> tech_type e1 = ''weapon'' \<and> tech_type e2 = ''weapon'' \<and> tech_type e3 = ''device''"
  have m: "[''device'' \<mapsto> (1::int), ''weapon'' \<mapsto> 2] = [''weapon'' \<mapsto> 2, ''device'' \<mapsto> 1]"
    by (rule ext) simp
  from h m show "\<exists>st. generate_statistics [e1, e2, e3] vc vp fp = Some st
         \<and> total_entries st = 3
         \<and> stat_tech_types st = [''weapon'' \<mapsto> 2, ''device'' \<mapsto> 1]
         \<and> min_length st = 50 \<and> max_length st = 300
         \<and> avg_length st = 500 / 3
         \<and> \<bar>avg_length st - 166.67\<bar> < 0.01
         \<and> quality_entries st = 2"
    by (simp add: generate_statistics_def get0_def min_or0_def max_or0_def)
qed

theorem generate_statistics_correct_witness:
  "\<exists>st. generate_statistics
       [new_TechEntry ''t1'' ''A'' (replicate 50 CHR ''x'') ''u'' ''Fictional technology'' '''' 0 '''' ''weapon'',
        new_TechEntry ''t2'' ''B'' (replicate 150 CHR ''x'') ''u'' ''Fictional technology'' '''' 0 '''' ''weapon'',
        new_TechEntry ''t3'' ''C'' (replicate 300 CHR ''x'') ''u'' ''Fictional robots'' '''' 0 '''' ''device'']
       {''Fictional technology_0''} {''A'', ''B'', ''C'', ''D''} [''D''] = Some st
     \<and> total_entries st = 3
     \<and> stat_tech_types st = [''weapon'' \<mapsto> 2, ''device'' \<mapsto> 1]
     \<and> min_length st = 50 \<and> max_length st = 300
     \<and> avg_length st = 500 / 3
     \<and> quality_entries st = 2
     \<and> stat_failed_pages st = 1 \<and> stat_processed_pages st = 4
     \<and> success_rate st = 75"
  using generate_statistics_correct
    [of "[new_TechEntry ''t1'' ''A'' (replicate 50 CHR ''x'') ''u'' ''Fictional technology'' '''' 0 '''' ''weapon'',
        new_TechEntry ''t2'' ''B'' (replicate 150 CHR ''x'') ''u'' ''Fictional technology'' '''' 0 '''' ''weapon'',
        new_TechEntry ''t3'' ''C'' (replicate 300 CHR ''x'') ''u'' ''Fictional robots'' '''' 0 '''' ''device'']"
        "{''Fictional technology_0''}" "{''A'', ''B'', ''C'', ''D''}" "[''D'']"
        "new_TechEntry ''t1'' ''A'' (replicate 50 CHR ''x'') ''u'' ''Fictional technology'' '''' 0 '''' ''weapon''"
        "new_TechEntry ''t2'' ''B'' (replicate 150 CHR ''x'') ''u'' ''Fictional technology'' '''' 0 '''' ''weapon''"
        "new_TechEntry ''t3'' ''C'' (replicate 300 CHR ''x'') ''u'' ''Fictional robots'' '''' 0 '''' ''device''"]
  by (auto simp: new_TechEntry_def)

section \<open>The classifier\<close>

lemma any_search_iff: "any_search ps text \<longleftrightarrow> (\<exists>p \<in> set ps. re_search p text)"
  by (induction ps) auto

lemma count_ones: "sum_list (map (\<lambda>p. 1::int) xs) = int (length xs)"
  by (induction xs) auto

lemma distinct_plot_patterns: "distinct plot_patterns"
  by (simp add: plot_patterns_def)

lemma plot_count:
  "sum_list (map (\<lambda>p. 1::int) (filter (\<lambda>p. re_search p text) plot_patterns))
     = int (card {p \<in> set plot_patterns. re_search p text})"
proof -
  have "{p \<in> set plot_patterns. re_search p text} = {p. re_search p text} \<inter> set plot_patterns"
    by auto
  then show ?thesis
    by (simp add: count_ones distinct_length_filter[OF distinct_plot_patterns])
qed

lemma search_from_here: "rmatch r (p, ys) \<noteq> [] \<Longrightarrow> search_from r p ys"
  by (cases ys) auto

lemma search_from_append:
  "rmatch r (if xs = [] then p else Some (last xs), ys) \<noteq> [] \<Longrightarrow> search_from r p (xs @ ys)"
proof (induction xs arbitrary: p)
  case Nil
  then show ?case by (simp add: search_from_here)
next
  case (Cons x xs)
  have "search_from r (Some x) (xs @ ys)"
    using Cons.prems by (intro Cons.IH) (auto split: if_splits)
  then show ?case by simp
qed

lemma actor_matches:
  "re_search (person_patterns ! 2) (pre @ '' actor '' @ post)"
proof -
  have "search_from (person_patterns ! 2) None ((pre @ '' '') @ (''actor '' @ post))"
    by (rule search_from_append)
       (simp add: person_patterns_def is_word_opt_def is_word_char_def next_char_def advance_def)
  then show ?thesis by (simp add: re_search_def)
qed

text \<open>
  C4.  \<open>is_excluded_content\<close> holds exactly when the lowercased title and body match
  the list-page pattern, or at least one person pattern, or more than two of the plot
  patterns.  A body that contains the phrase "is an actor who portrayed by" is
  excluded whatever the title and the rest of the body hold: the word "actor"
  stands between two spaces there, which is all the third person pattern asks for.
\<close>

theorem exclusion_precheck:
  "(is_excluded_content title content \<longleftrightarrow>
      re_search list_pages (lower (title @ '' '' @ content))
      \<or> (\<exists>p \<in> set person_patterns. re_search p (lower (title @ '' '' @ content)))
      \<or> 2 < card {p \<in> set plot_patterns. re_search p (lower (title @ '' '' @ content))})
   \<and> is_excluded_content title (pre @ ''is an actor who portrayed by'' @ post)"
proof
  show iff: "\<And>content. is_excluded_content title content \<longleftrightarrow>
      re_search list_pages (lower (title @ '' '' @ content))
      \<or> (\<exists>p \<in> set person_patterns. re_search p (lower (title @ '' '' @ content)))
      \<or> 2 < card {p \<in> set plot_patterns. re_search p (lower (title @ '' '' @ content))}"
    by (simp add: is_excluded_content_def Let_def any_search_iff plot_count)
  have "lower (title @ '' '' @ pre @ ''is an actor who portrayed by'' @ post)
          = (lower (title @ '' '' @ pre) @ ''is an'') @ '' actor '' @ (''who portrayed by'' @ lower post)"
    by (simp add: lower_def lower_char_def)
  then have "re_search (person_patterns ! 2)
               (lower (title @ '' '' @ pre @ ''is an actor who portrayed by'' @ post))"
    by (simp only: actor_matches)
  moreover have "person_patterns ! 2 \<in> set person_patterns"
    by (simp add: person_patterns_def)
  ultimately show "is_excluded_content title (pre @ ''is an actor who portrayed by'' @ post)"
    unfolding iff by blast
qed

theorem exclusion_precheck_witness:
  "is_excluded_content ''Lightsaber'' ''Mark Hamill is an actor who portrayed by laser sword fights''
   \<and> \<not> is_excluded_content ''Lightsaber''
         ''A lightsaber is a fictional energy sword featured in the Star Wars universe.''"
proof -
  have a: "\<not> re_search list_pages (lower (''Lightsaber'' @ '' '' @
             ''A lightsaber is a fictional energy sword featured in the Star Wars universe.''))"
    by code_simp
  have b: "\<forall>p \<in> set person_patterns. \<not> re_search p (lower (''Lightsaber'' @ '' '' @
             ''A lightsaber is a fictional energy sword featured in the Star Wars universe.''))"
    by code_simp
  have c: "\<not> re_search (plot_patterns ! 0) (lower (''Lightsaber'' @ '' '' @
             ''A lightsaber is a fictional energy sword featured in the Star Wars universe.''))"
    by code_simp
  have "card {p \<in> set plot_patterns. re_search p (lower (''Lightsaber'' @ '' '' @
             ''A lightsaber is a fictional energy sword featured in the Star Wars universe.''))}
          \<le> card (set (tl plot_patterns))"
    using c by (intro card_mono) (auto simp: plot_patterns_def)
  then have d: "\<not> 2 < card {p \<in> set plot_patterns. re_search p (lower (''Lightsaber'' @ '' '' @
             ''A lightsaber is a fictional energy sword featured in the Star Wars universe.''))}"
    by (simp add: plot_patterns_def)
  show ?thesis
    using a b d
      exclusion_precheck[of "''Lightsaber''"
        "''A lightsaber is a fictional energy sword featured in the Star Wars universe.''"
        "''Mark Hamill ''" "'' laser sword fights''"]
    by simp
qed

text \<open>The scoring loops as counts of the vocabulary words present.\<close>

lemma add_matches_eq:
  "add_matches k ws cond score = score + k * int (length (filter cond ws))"
  by (induction ws arbitrary: score) (auto simp: algebra_simps)

lemma present_distinct:
  "distinct ws \<Longrightarrow> present ws cond = int (length (filter cond ws))"
proof -
  assume d: "distinct ws"
  have "{w \<in> set ws. cond w} = {w. cond w} \<inter> set ws" by auto
  then show ?thesis by (simp add: present_def distinct_length_filter[OF d])
qed

lemma count_in_eq: "count_in ws text = int (length (filter (\<lambda>w. str_in w text) ws))"
  by (simp add: count_in_def count_ones)

lemma type_score_spec:
  "distinct (key_words c) \<Longrightarrow> distinct (context_words c) \<Longrightarrow>
   type_score c text = spec_label_score c text"
  by (auto simp: type_score_def spec_label_score_def Let_def count_in_eq present_distinct Suc_le_eq)

lemma distinct_vocabularies:
  "distinct strong" "distinct franchises" "distinct tech_context"
  by (simp_all add: strong_def franchises_def tech_context_def)

lemma distinct_classifiers:
  "(l, c) \<in> set TECH_CLASSIFIERS \<Longrightarrow> distinct (key_words c) \<and> distinct (context_words c)"
  by (auto simp: TECH_CLASSIFIERS_def)

lemma domain_score_spec:
  "add_matches 2 tech_context (\<lambda>t. str_in t text)
     (add_matches 4 franchises (\<lambda>f. str_in f text \<or> str_in f category_text)
        (add_matches 3 strong (\<lambda>i. str_in i text \<or> str_in i category_text) 0))
   = spec_domain_score text category_text"
  by (simp add: add_matches_eq spec_domain_score_def present_distinct distinct_vocabularies)

text \<open>
  The loop over the labels keeps the first label that reaches the maximum, provided
  the maximum exceeds the starting score.
\<close>

lemma best_loop_foldl:
  "best_loop cls text best =
     foldl (\<lambda>(bt, bs) (l, v). if v > bs then (l, v) else (bt, bs)) best
       (map (\<lambda>(l, c). (l, type_score c text)) cls)"
proof (induction cls arbitrary: best)
  case Nil
  show ?case by simp
next
  case (Cons a cls)
  obtain l c where a: "a = (l, c)" by (cases a)
  obtain bt bs where b: "best = (bt, bs)" by (cases best)
  show ?case by (simp add: a b Cons.IH)
qed

lemma pick_first_top:
  fixes scores :: "(string \<times> int) list"
  shows "foldl (\<lambda>(bt, bs) (l, v). if v > bs then (l, v) else (bt, bs)) (bt, bs) scores =
     (if Max (insert bs (snd ` set scores)) = bs then (bt, bs)
      else (fst (hd (filter (\<lambda>(l, v). v = Max (insert bs (snd ` set scores))) scores)),
            Max (insert bs (snd ` set scores))))"
proof (induction scores arbitrary: bt bs)
  case Nil
  show ?case by simp
next
  case (Cons a scores)
  obtain l v where a: "a = (l, v)" by (cases a)
  define S where "S = snd ` set scores"
  have fin: "finite S" by (simp add: S_def)
  have set_eq: "snd ` set (a # scores) = insert v S" by (simp add: a S_def)
  show ?case
  proof (cases "v > bs")
    case True
    have top: "Max (insert bs (insert v S)) = Max (insert v S)"
    proof -
      have "Max (insert bs (insert v S)) = max bs (Max (insert v S))"
        using fin by (intro Max_insert) auto
      moreover have "v \<le> Max (insert v S)" using fin by (intro Max_ge) auto
      ultimately show ?thesis using True by simp
    qed
    have ge: "v \<le> Max (insert v S)" using fin by (intro Max_ge) auto
    have ne: "Max (insert v S) \<noteq> bs" using True ge by simp
    have step: "foldl (\<lambda>(bt, bs) (l, v). if v > bs then (l, v) else (bt, bs)) (bt, bs) (a # scores)
            = foldl (\<lambda>(bt, bs) (l, v). if v > bs then (l, v) else (bt, bs)) (l, v) scores"
      using True by (simp add: a)
    show ?thesis
      unfolding step Cons.IH[of l v] set_eq top S_def[symmetric]
      using ne by (auto simp: a)
  next
    case False
    have ge: "bs \<le> Max (insert bs S)" using fin by (intro Max_ge) auto
    have top: "Max (insert bs (insert v S)) = Max (insert bs S)"
    proof -
      have "insert bs (insert v S) = insert v (insert bs S)" by auto
      moreover have "Max (insert v (insert bs S)) = max v (Max (insert bs S))"
        using fin by (intro Max_insert) auto
      ultimately show ?thesis using False ge by simp
    qed
    have skip: "Max (insert bs S) \<noteq> bs \<Longrightarrow> v \<noteq> Max (insert bs S)"
      using False ge by simp
    have step: "foldl (\<lambda>(bt, bs) (l, v). if v > bs then (l, v) else (bt, bs)) (bt, bs) (a # scores)
            = foldl (\<lambda>(bt, bs) (l, v). if v > bs then (l, v) else (bt, bs)) (bt, bs) scores"
      using False by (simp add: a)
    show ?thesis
      unfolding step Cons.IH[of bt bs] set_eq top S_def[symmetric]
      using skip by (auto simp: a)
  qed
qed

lemma classifier_scores:
  "map (\<lambda>(l, c). (l, type_score c text)) TECH_CLASSIFIERS
     = map (\<lambda>(l, c). (l, spec_label_score c text)) TECH_CLASSIFIERS"
  by (rule map_cong[OF refl]) (auto dest: distinct_classifiers simp: type_score_spec)

lemma best_spec: "best_loop TECH_CLASSIFIERS text (''technology'', 0) = spec_best text"
  unfolding best_loop_foldl pick_first_top classifier_scores spec_best_def Let_def
  by simp

lemma spec_best_nonneg: "0 \<le> snd (spec_best text)"
proof -
  have "0 \<le> Max (insert 0 (snd ` set (map (\<lambda>(l, c). (l, spec_label_score c text)) TECH_CLASSIFIERS)))"
    by (intro Max_ge) auto
  then show ?thesis by (auto simp: spec_best_def Let_def)
qed

lemma spec_domain_nonneg: "0 \<le> spec_domain_score text category_text"
  by (simp add: spec_domain_score_def present_def)

lemma classify_spec:
  "is_sci_fi_technology title content categories = spec_classify title content categories"
  by (simp add: is_sci_fi_technology_def spec_classify_def Let_def domain_score_spec best_spec)

text \<open>Without any vocabulary word every score is zero.\<close>

lemma present_none: "\<forall>w \<in> set ws. \<not> cond w \<Longrightarrow> present ws cond = 0"
proof -
  assume "\<forall>w \<in> set ws. \<not> cond w"
  then have "{w \<in> set ws. cond w} = {}" by auto
  then show ?thesis by (simp add: present_def)
qed

lemma vocabulary_parts:
  "set strong \<subseteq> set vocabulary" "set franchises \<subseteq> set vocabulary"
  "set tech_context \<subseteq> set vocabulary"
  by (auto simp: vocabulary_def)

lemma vocabulary_classifier:
  "(l, c) \<in> set TECH_CLASSIFIERS \<Longrightarrow> set (key_words c) \<union> set (context_words c) \<subseteq> set vocabulary"
  by (force simp: vocabulary_def)

lemma no_vocabulary_label:
  assumes "\<forall>w \<in> set vocabulary. \<not> str_in w text" and "(l, c) \<in> set TECH_CLASSIFIERS"
  shows "spec_label_score c text = 0"
proof -
  have "\<forall>w \<in> set (key_words c). \<not> str_in w text" "\<forall>w \<in> set (context_words c). \<not> str_in w text"
    using assms vocabulary_classifier[OF assms(2)] by auto
  then show ?thesis by (simp add: spec_label_score_def present_none)
qed

lemma no_vocabulary_best:
  assumes "\<forall>w \<in> set vocabulary. \<not> str_in w text"
  shows "spec_best text = (''technology'', 0)"
proof -
  define S where "S = snd ` set (map (\<lambda>(l, c). (l, spec_label_score c text)) TECH_CLASSIFIERS)"
  have "S \<subseteq> {0}"
    using no_vocabulary_label[OF assms] by (auto simp: S_def)
  then have "insert 0 S = {0}" by auto
  then have "Max (insert 0 S) = Max {0}" by (rule arg_cong)
  then have "Max (insert 0 S) = 0" by simp
  then show ?thesis
    unfolding spec_best_def Let_def S_def by (rule if_P)
qed

lemma no_vocabulary_domain:
  assumes "\<forall>w \<in> set vocabulary. \<not> str_in w text \<and> \<not> str_in w category_text"
  shows "spec_domain_score text category_text = 0"
proof -
  have "\<forall>w \<in> set strong. \<not> (str_in w text \<or> str_in w category_text)"
    "\<forall>w \<in> set franchises. \<not> (str_in w text \<or> str_in w category_text)"
    "\<forall>w \<in> set tech_context. \<not> str_in w text"
    using assms vocabulary_parts by auto
  then show ?thesis by (simp add: spec_domain_score_def present_none)
qed

text \<open>
  C3.  \<open>is_sci_fi_technology\<close> computes the reference definition: over the lowercased
  title and body and the lowercased joined category titles, the domain score adds 3
  per strong indicator and 4 per franchise present in either text and 2 per
  tech-context phrase present in the first; each label scores its keywords present
  times its weight, plus twice its context words present, plus 3 when it has both;
  the first label with the highest score wins if that score is positive, else the
  label stays "technology"; the page is a target when both the domain score and the
  best label score are at least 2, and the confidence is the sum of the two over 8,
  capped at 1.  The confidence lies between 0 and 1, and without any vocabulary word
  the result is no target, "technology", 0.
\<close>

theorem classifier_reference:
  "is_sci_fi_technology title content categories = spec_classify title content categories
   \<and> 0 \<le> snd (snd (is_sci_fi_technology title content categories))
   \<and> snd (snd (is_sci_fi_technology title content categories)) \<le> 1
   \<and> ((\<forall>w \<in> set vocabulary. \<not> str_in w (lower (title @ '' '' @ content))
                              \<and> \<not> str_in w (lower (join_space categories))) \<longrightarrow>
        is_sci_fi_technology title content categories = (False, ''technology'', 0))"
proof (intro conjI impI)
  show eq: "is_sci_fi_technology title content categories = spec_classify title content categories"
    by (rule classify_spec)
  have "0 \<le> real_of_int (spec_domain_score (lower (title @ '' '' @ content)) (lower (join_space categories))
                 + snd (spec_best (lower (title @ '' '' @ content)))) / 8"
    using spec_domain_nonneg spec_best_nonneg by simp
  then show "0 \<le> snd (snd (is_sci_fi_technology title content categories))"
    unfolding eq by (simp add: spec_classify_def Let_def)
  show "snd (snd (is_sci_fi_technology title content categories)) \<le> 1"
    unfolding eq by (simp add: spec_classify_def Let_def)
  show "is_sci_fi_technology title content categories = (False, ''technology'', 0)"
    if "\<forall>w \<in> set vocabulary. \<not> str_in w (lower (title @ '' '' @ content))
                              \<and> \<not> str_in w (lower (join_space categories))"
  proof -
    have "spec_best (lower (title @ '' '' @ content)) = (''technology'', 0)"
      using that by (intro no_vocabulary_best) auto
    moreover have "spec_domain_score (lower (title @ '' '' @ content)) (lower (join_space categories)) = 0"
      using that by (intro no_vocabulary_domain) auto
    ultimately show ?thesis
      unfolding eq by (simp add: spec_classify_def Let_def)
  qed
qed

theorem classifier_reference_witness:
  "is_sci_fi_technology ''Moon'' ''A big rock.'' [] = (False, ''technology'', 0)"
proof -
  have h: "\<forall>w \<in> set vocabulary. \<not> str_in w (lower (''Moon'' @ '' '' @ ''A big rock.''))
                              \<and> \<not> str_in w (lower (join_space []))"
    by code_simp
  show ?thesis
    using h classifier_reference[of "''Moon''" "''A big rock.''" "[]"] by blast
qed

text \<open>The assertion of the repository's own test.\<close>

lemma lightsaber_is_a_weapon:
  "is_sci_fi_technology ''Lightsaber''
     ''A lightsaber is a fictional energy sword featured in the Star Wars universe.''
     [''Category:Star Wars weapons'']
   = (True, ''weapon'', 1)"
  by code_simp

section \<open>The state of a run only grows\<close>

lemma grows_refl: "grows cfg s s"
  by (simp add: grows_def)

lemma grows_trans:
  assumes ab: "grows cfg a b" and bc: "grows cfg b c"
  shows "grows cfg a c"
proof -
  from ab obtain e1 where e1: "events b = events a @ e1"
    "\<forall>n l d. FetchMembers n l d \<in> set e1 \<longrightarrow> d \<le> max_category_depth cfg"
    by (auto simp: grows_def)
  from bc obtain e2 where e2: "events c = events b @ e2"
    "\<forall>n l d. FetchMembers n l d \<in> set e2 \<longrightarrow> d \<le> max_category_depth cfg"
    by (auto simp: grows_def)
  have ev: "\<exists>evs. events c = events a @ evs
              \<and> (\<forall>n l d. FetchMembers n l d \<in> set evs \<longrightarrow> d \<le> max_category_depth cfg)"
    using e1 e2 by (intro exI[of _ "e1 @ e2"]) auto
  have vp: "visited_pages a \<subseteq> visited_pages c"
    using ab bc by (auto simp: grows_def)
  have vc: "visited_categories a \<subseteq> visited_categories c"
    using ab bc by (auto simp: grows_def)
  have new: "\<forall>k \<in> visited_categories c - visited_categories a. is_composite k"
    using ab bc unfolding grows_def by blast
  have se: "prefix (scraped_entries a) (scraped_entries c)"
    using ab bc unfolding grows_def by (meson prefix_order.order_trans)
  have fp: "prefix (failed_pages a) (failed_pages c)"
    using ab bc unfolding grows_def by (meson prefix_order.order_trans)
  show ?thesis
    unfolding grows_def using vp vc new se fp ev by blast
qed

lemma grows_save: "grows cfg s (snd (save_checkpoint e s))"
  by (simp add: grows_def save_checkpoint_def read_clock_def split: prod.splits)

lemma grows_export: "grows cfg s (snd (export_data e s))"
  by (simp add: grows_def export_data_def read_clock_def)

lemma grows_process_page: "grows cfg s (snd (process_page e t c s))"
  by (auto simp: grows_def process_page_def check_and_mark_def fetch_and_classify_def read_clock_def Let_def
      split: sum.splits option.splits prod.splits if_splits)

lemma grows_process_pages: "grows cfg s (snd (process_pages e ts c n s))"
proof (induction ts arbitrary: n s)
  case Nil
  show ?case by (simp add: grows_refl)
next
  case (Cons t ts)
  obtain es s1 where pp: "process_page e t c s = (es, s1)" by (cases "process_page e t c s")
  have g1: "grows cfg s s1" using grows_process_page[of cfg s e t c] pp by simp
  show ?case
  proof (cases "es = []")
    case True
    then show ?thesis using pp g1 Cons.IH[where s = s1 and n = n] by (auto intro: grows_trans)
  next
    case False
    let ?s2 = "s1\<lparr>scraped_entries := scraped_entries s1 @ es\<rparr>"
    have g2: "grows cfg s1 ?s2" by (simp add: grows_def)
    let ?s3 = "if (n + int (length es)) mod 10 = 0 then snd (save_checkpoint e ?s2) else ?s2"
    have g3: "grows cfg ?s2 ?s3" by (simp add: grows_save grows_refl)
    have "grows cfg s ?s3" using g1 g2 g3 grows_trans by blast
    moreover have "grows cfg ?s3 (snd (process_pages e ts c (n + int (length es)) ?s3))"
      by (rule Cons.IH)
    ultimately show ?thesis using pp False by (auto simp: Let_def intro: grows_trans)
  qed
qed




lemma grows_scrape:
  "grows cfg s (snd (scrape_category cfg e cn mp d s))"
  "grows cfg s (snd (scrape_subcategories cfg e subs d found s))"
proof (induction cfg e cn mp d s and cfg e subs d found s
       rule: scrape_category_scrape_subcategories.induct)
  case (1 cfg e category_name max_pages current_depth s)
  let ?x = "str_replace ''Category:'' [] category_name"
  let ?key = "category_depth_key ?x current_depth"
  let ?s1 = "s\<lparr>visited_categories := insert ?key (visited_categories s)\<rparr>"
  let ?lim = "min max_pages (max_pages_per_category cfg)"
  let ?s2 = "?s1\<lparr>events := events ?s1 @ [FetchMembers ?x ?lim current_depth]\<rparr>"
  have g1: "grows cfg s ?s1"
    by (auto simp: grows_def is_composite_def)
  show ?case
  proof (cases "max_category_depth cfg < current_depth \<or> ?key \<in> visited_categories s")
    case True
    then show ?thesis
      by (subst scrape_category.simps) (auto simp: Let_def grows_refl)
  next
    case guard: False
    show ?thesis
    proof (cases "0 < current_depth \<and> ?x \<in> visited_categories ?s1")
      case True
      then show ?thesis using guard g1
        by (subst scrape_category.simps) (auto simp: Let_def)
    next
      case recheck: False
      have g2: "grows cfg s ?s2" using guard
        by (auto simp: grows_def is_composite_def)
      show ?thesis
      proof (cases "get_category_members e (length (events ?s1)) ?x ?lim")
        case (Inl err)
        then show ?thesis using guard recheck g2
          by (subst scrape_category.simps) (auto simp: Let_def)
      next
        case (Inr members)
        show ?thesis
        proof (cases "members = []")
          case True
          then show ?thesis using guard recheck g2 Inr
            by (subst scrape_category.simps) (auto simp: Let_def)
        next
          case nonempty: False
          let ?pages = "filter (\<lambda>m. ns_or0 m = 0) members"
          let ?subs = "slice_to (max_subcategories_per_category cfg)
                         (filter (\<lambda>m. ns_or0 m = 14) members)"
          let ?dp = "if ?pages \<noteq> [] then process_pages e (map member_title ?pages) category_name 0 ?s2
                     else (0, ?s2)"
          have g3: "grows cfg ?s2 (snd ?dp)"
            by (simp add: grows_process_pages grows_refl)
          have g4: "grows cfg s (snd ?dp)" using g2 g3 grows_trans by blast
          show ?thesis
          proof (cases "current_depth < max_category_depth cfg")
            case True
            have "grows cfg (snd ?dp)
                    (snd (scrape_subcategories cfg e ?subs current_depth (fst ?dp) (snd ?dp)))"
              using guard recheck Inr nonempty True
              by (intro "1.IH"[OF refl _ _ refl _ refl refl _ _ refl refl refl]) auto
            then have "grows cfg s
                    (snd (scrape_subcategories cfg e ?subs current_depth (fst ?dp) (snd ?dp)))"
              using g4 grows_trans by blast
            then show ?thesis using guard recheck Inr nonempty True
              by (subst scrape_category.simps) (auto simp: Let_def)
          next
            case False
            then show ?thesis using guard recheck Inr nonempty g4
              by (subst scrape_category.simps) (auto simp: Let_def)
          qed
        qed
      qed
    qed
  qed
next
  case (2 cfg e current_depth entries_found s)
  show ?case by (simp add: grows_refl)
next
  case (3 cfg e subcat rest current_depth entries_found s)
  let ?n = "member_title subcat"
  let ?r = "scrape_category cfg e ?n (min 300 (max_pages_per_category cfg div 2)) (current_depth + 1) s"
  show ?case
  proof (cases "is_relevant_subcategory ?n")
    case False
    then show ?thesis using "3.IH"(4)[OF refl] by simp
  next
    case True
    have g1: "grows cfg s (snd ?r)" using "3.IH"(1)[OF refl True] .
    obtain out s1 where r: "?r = (out, s1)" by (cases ?r)
    show ?thesis
    proof (cases out)
      case (Inr b)
      have "grows cfg s1 (snd (scrape_subcategories cfg e rest current_depth (entries_found + b) s1))"
        using "3.IH"(3)[OF refl True r[symmetric] Inr] .
      then show ?thesis using g1 r Inr True by (auto intro: grows_trans)
    next
      case (Inl err)
      show ?thesis
      proof (cases err)
        case (Exception msg)
        have "grows cfg s1 (snd (scrape_subcategories cfg e rest current_depth entries_found s1))"
          using "3.IH"(2)[OF refl True r[symmetric] Inl Exception] .
        then show ?thesis using g1 r Inl Exception True by (auto intro: grows_trans)
      qed (use g1 r Inl True in auto)
    qed
  qed
qed

section \<open>Checkpoints\<close>

text \<open>
  C2, as stated, fails.  A save that stops while the pickle file is being written
  (after three of its four writes) leaves a complete new JSON file and an incomplete
  pickle file; \<open>load_checkpoint\<close> then tries the pickle file first, fails, and
  returns the empty dict: the previous snapshot is no longer loadable.
\<close>

theorem save_not_atomic_counterexample:
  "manager_load_checkpoint
     (save_upto 3 (checkpoint_of ''2024-01-03T00:00:00'' {''Lightsaber'', ''Blaster''} {} [lightsaber] [])
        (save_upto 4 (checkpoint_of ''2024-01-02T00:00:00'' {''Lightsaber''} {} [lightsaber] []) empty_dir))
   \<noteq> Some (checkpoint_of ''2024-01-02T00:00:00'' {''Lightsaber''} {} [lightsaber] [])"
  by (simp add: manager_load_checkpoint_def save_upto_def save_writes_def empty_dir_def)

text \<open>
  C2, amended.  The files are overwritten in place, the JSON file first.  After a
  complete save of \<open>prev\<close>, a later save that stops before the pickle file is opened
  for writing (\<open>k \<le> 2\<close>, which includes stopping in the middle of the JSON dump)
  leaves \<open>prev\<close> as what \<open>load_checkpoint\<close> returns; one that stops while the pickle
  file is being written (\<open>k = 3\<close>) leaves nothing loadable.
\<close>

theorem failed_save_keeps_snapshot_until_pickle:
  "k \<le> 3 \<Longrightarrow>
   manager_load_checkpoint (save_upto k new (save_upto 4 prev dir))
     = (if k = 3 then None else Some prev)"
proof -
  assume "k \<le> 3"
  then consider "k = 0" | "k = 1" | "k = 2" | "k = 3"
    by arith
  then show ?thesis
    by cases (simp_all add: manager_load_checkpoint_def save_upto_def save_writes_def)
qed

theorem failed_save_keeps_snapshot_until_pickle_witness:
  "(1::nat) \<le> 3 \<and>
   manager_load_checkpoint
     (save_upto 1 (checkpoint_of ''2024-01-03T00:00:00'' {''Lightsaber'', ''Blaster''} {} [lightsaber] [])
        (save_upto 4 (checkpoint_of ''2024-01-02T00:00:00'' {''Lightsaber''} {} [lightsaber] []) empty_dir))
   = Some (checkpoint_of ''2024-01-02T00:00:00'' {''Lightsaber''} {} [lightsaber] [])"
  using failed_save_keeps_snapshot_until_pickle
    [of 1 "checkpoint_of ''2024-01-03T00:00:00'' {''Lightsaber'', ''Blaster''} {} [lightsaber] []"
        "checkpoint_of ''2024-01-02T00:00:00'' {''Lightsaber''} {} [lightsaber] []" empty_dir]
  by simp

text \<open>What a scraper started on a saved checkpoint directory gets back.\<close>

lemma rebuild_entries_Cons:
  "rebuild_entries e (d # ds) s =
     (new_TechEntry (now e (ticks s)) (name d) (description d) (url d) (category d) (subcategory d)
        (content_length d) (scraped_at d) (tech_type d)
        # fst (rebuild_entries e ds (s\<lparr>ticks := ticks s + 1\<rparr>)),
      snd (rebuild_entries e ds (s\<lparr>ticks := ticks s + 1\<rparr>)))"
  by (simp add: read_clock_def split: prod.splits)

lemma rebuild_entries_state:
  "snd (rebuild_entries e ds s) = s\<lparr>ticks := ticks s + length ds\<rparr>"
proof (induction ds arbitrary: s)
  case Nil
  show ?case by simp
next
  case (Cons d ds)
  show ?case
    by (simp only: rebuild_entries_Cons snd_conv Cons.IH) simp
qed

lemma rebuild_entries_fields:
  "map (\<lambda>x. x\<lparr>scraped_at := []\<rparr>) (fst (rebuild_entries e ds s))
     = map (\<lambda>d. d\<lparr>content_length := int (length (description d)), scraped_at := []\<rparr>) ds"
proof (induction ds arbitrary: s)
  case Nil
  show ?case by simp
next
  case (Cons d ds)
  show ?case
    by (simp only: rebuild_entries_Cons fst_conv list.map Cons.IH) (simp add: new_TechEntry_def)
qed

lemma rebuild_entries_clock:
  "x \<in> set (fst (rebuild_entries e ds s)) \<Longrightarrow> \<exists>i. scraped_at x = now e i"
proof (induction ds arbitrary: s)
  case Nil
  then show ?case by simp
next
  case (Cons d ds)
  from Cons.prems have
    "x = new_TechEntry (now e (ticks s)) (name d) (description d) (url d) (category d) (subcategory d)
        (content_length d) (scraped_at d) (tech_type d)
     \<or> x \<in> set (fst (rebuild_entries e ds (s\<lparr>ticks := ticks s + 1\<rparr>)))"
    by (simp only: rebuild_entries_Cons fst_conv set_simps insert_iff)
  then show ?case
  proof
    assume "x = new_TechEntry (now e (ticks s)) (name d) (description d) (url d) (category d)
        (subcategory d) (content_length d) (scraped_at d) (tech_type d)"
    then have "scraped_at x = now e (ticks s)" by (simp add: new_TechEntry_def)
    then show ?thesis by blast
  next
    assume "x \<in> set (fst (rebuild_entries e ds (s\<lparr>ticks := ticks s + 1\<rparr>)))"
    then show ?thesis by (rule Cons.IH)
  qed
qed

lemma load_of_save:
  "4 \<le> writes_done e0 (length (events s)) \<Longrightarrow>
   manager_load_checkpoint (checkpoints (snd (save_checkpoint e0 s)))
     = Some (checkpoint_of (now e0 (ticks s)) (visited_pages s) (visited_categories s)
               (scraped_entries s) (failed_pages s))"
  by (simp add: save_checkpoint_def read_clock_def manager_save_checkpoint_def
      manager_load_checkpoint_def save_upto_def save_writes_def)

lemma init_after_save:
  "4 \<le> writes_done e0 (length (events s)) \<Longrightarrow>
   init_scraper e (checkpoints (snd (save_checkpoint e0 s))) =
     (let start = \<lparr>visited_pages = set (sorted_list_of_set (visited_pages s)),
                    visited_categories = set (sorted_list_of_set (visited_categories s)),
                    scraped_entries = [], failed_pages = failed_pages s,
                    checkpoints = checkpoints (snd (save_checkpoint e0 s)), events = [], ticks = 0\<rparr>;
          r = rebuild_entries e (scraped_entries s) start
      in (snd r)\<lparr>scraped_entries := fst r\<rparr>)"
  by (simp add: init_scraper_def load_checkpoint_def load_of_save checkpoint_of_def Let_def
      split: prod.splits)

lemma load_after_save:
  assumes "finite (visited_pages s)" and "finite (visited_categories s)"
    and complete: "4 \<le> writes_done e0 (length (events s))"
  shows "visited_pages (init_scraper e (checkpoints (snd (save_checkpoint e0 s)))) = visited_pages s"
    and "visited_categories (init_scraper e (checkpoints (snd (save_checkpoint e0 s)))) = visited_categories s"
    and "failed_pages (init_scraper e (checkpoints (snd (save_checkpoint e0 s)))) = failed_pages s"
    and "map (\<lambda>x. x\<lparr>scraped_at := []\<rparr>)
             (scraped_entries (init_scraper e (checkpoints (snd (save_checkpoint e0 s)))))
           = map (\<lambda>d. d\<lparr>content_length := int (length (description d)), scraped_at := []\<rparr>)
               (scraped_entries s)"
    and "\<forall>x \<in> set (scraped_entries (init_scraper e (checkpoints (snd (save_checkpoint e0 s))))).
           \<exists>i. scraped_at x = now e i"
proof -
  show "visited_pages (init_scraper e (checkpoints (snd (save_checkpoint e0 s)))) = visited_pages s"
    using assms(1) by (simp add: init_after_save[OF complete] Let_def rebuild_entries_state)
  show "visited_categories (init_scraper e (checkpoints (snd (save_checkpoint e0 s)))) = visited_categories s"
    using assms(2) by (simp add: init_after_save[OF complete] Let_def rebuild_entries_state)
  show "failed_pages (init_scraper e (checkpoints (snd (save_checkpoint e0 s)))) = failed_pages s"
    by (simp add: init_after_save[OF complete] Let_def rebuild_entries_state)
  show "map (\<lambda>x. x\<lparr>scraped_at := []\<rparr>)
             (scraped_entries (init_scraper e (checkpoints (snd (save_checkpoint e0 s)))))
           = map (\<lambda>d. d\<lparr>content_length := int (length (description d)), scraped_at := []\<rparr>)
               (scraped_entries s)"
    by (simp add: init_after_save[OF complete] Let_def rebuild_entries_fields)
  show "\<forall>x \<in> set (scraped_entries (init_scraper e (checkpoints (snd (save_checkpoint e0 s))))).
           \<exists>i. scraped_at x = now e i"
    by (auto simp: init_after_save[OF complete] Let_def dest: rebuild_entries_clock)
qed

text \<open>
  C1.  After a flush that completes, the visited pages, the visited categories, the
  failed pages and every field of the entries but one come back
  (\<open>load_after_save\<close>, where \<open>content_length\<close> is
  recomputed from the description).  The field \<open>scraped_at\<close> does not: the saved value
  is passed to the constructor and then overwritten by \<open>__post_init__\<close> with the clock
  at load time.  An entry scraped on the first of January and reloaded on the second
  carries the second.
\<close>

theorem reload_resets_scraped_at:
  "map scraped_at (scraped_entries one_entry_scraper) = [''2024-01-01T00:00:00'']
   \<and> map scraped_at
        (scraped_entries (init_scraper quiet_env (checkpoints (snd (save_checkpoint quiet_env one_entry_scraper)))))
     = [''2024-01-02T00:00:00'']"
  by (simp add: one_entry_scraper_def lightsaber_def new_TechEntry_def init_scraper_def
      load_checkpoint_def save_checkpoint_def manager_save_checkpoint_def manager_load_checkpoint_def
      save_upto_def save_writes_def checkpoint_of_def read_clock_def quiet_env_def empty_dir_def)

section \<open>The crawl\<close>

text \<open>
  C7.  Beyond the configured depth \<open>scrape_category\<close> returns 0 and leaves the state
  as it was: nothing is marked visited and nothing is requested.  And whatever the
  depth of the call, every request for category members it issues, at any level of the
  recursion, comes from a call whose depth is within the bound.
\<close>

theorem depth_bound:
  "(max_category_depth cfg < d \<longrightarrow> scrape_category cfg e cn mp d s = (Inr 0, s))
   \<and> (\<exists>evs. events (snd (scrape_category cfg e cn mp d s)) = events s @ evs
          \<and> (\<forall>n l d'. FetchMembers n l d' \<in> set evs \<longrightarrow> d' \<le> max_category_depth cfg))"
proof
  show "max_category_depth cfg < d \<longrightarrow> scrape_category cfg e cn mp d s = (Inr 0, s)"
    by (subst scrape_category.simps) (simp add: Let_def)
  show "\<exists>evs. events (snd (scrape_category cfg e cn mp d s)) = events s @ evs
          \<and> (\<forall>n l d'. FetchMembers n l d' \<in> set evs \<longrightarrow> d' \<le> max_category_depth cfg)"
    using grows_scrape(1)[of cfg s e cn mp d] by (simp add: grows_def)
qed

theorem depth_bound_witness:
  "scrape_category example_settings quiet_env ''Category:Fictional robots'' 500 2 one_entry_scraper
     = (Inr 0, one_entry_scraper)"
  using depth_bound[of example_settings 2 quiet_env "''Category:Fictional robots''" 500 one_entry_scraper]
  by (simp add: example_settings_def)

text \<open>
  The workers of a pool, in whatever order their steps interleave: for each title,
  the workers past the lock and the requests issued stay within one.
\<close>

lemma filter_update_count:
  "i < length ws \<Longrightarrow>
   length (filter P (ws[i := w])) + (if P (ws ! i) then 1 else 0)
     = length (filter P ws) + (if P w then 1 else 0)"
proof (induction ws arbitrary: i)
  case Nil
  then show ?case by simp
next
  case (Cons a ws)
  show ?case
  proof (cases i)
    case 0
    then show ?thesis by simp
  next
    case (Suc j)
    then have "j < length ws" using Cons.prems by simp
    from Cons.IH[OF this] show ?thesis using Suc by simp
  qed
qed

lemma fetch_and_classify_effect:
  "events (snd (fetch_and_classify e t c s)) = events s @ [FetchPage t]"
  "visited_pages (snd (fetch_and_classify e t c s)) = visited_pages s"
  by (auto simp: fetch_and_classify_def read_clock_def Let_def
      split: sum.splits option.splits prod.splits)

lemma pool_inv_start: "pool_inv t s (submit calls, s)"
proof -
  have "filter (about_to_fetch t) (submit calls) = []"
    by (auto simp: submit_def about_to_fetch_def filter_empty_conv)
  then show ?thesis by (simp add: pool_inv_def)
qed

lemma pool_inv_step:
  assumes inv: "pool_inv t s0 c"
  shows "pool_inv t s0 (pool_step e i c)"
proof (cases "i < length (fst c)")
  case False
  then show ?thesis using inv by (simp add: pool_step_def)
next
  case True
  obtain ws s where c: "c = (ws, s)" by (cases c)
  have i: "i < length ws" using True c by simp
  from inv c obtain new where
    sub: "visited_pages s0 \<subseteq> visited_pages s"
    and ev: "events s = events s0 @ new"
    and bound: "length (filter (about_to_fetch t) ws) + count_list new (FetchPage t)
                  \<le> (if t \<in> visited_pages s \<and> t \<notin> visited_pages s0 then 1 else 0)"
    by (auto simp: pool_inv_def)
  note upd = filter_update_count[OF i, of "about_to_fetch t"]
  show ?thesis
  proof (cases "ws ! i")
    case (Finished entries)
    then have "pool_step e i c = (ws[i := Finished entries], s)"
      using i c by (simp add: pool_step_def)
    moreover have "ws[i := Finished entries] = ws"
      using Finished i by (metis list_update_id)
    ultimately show ?thesis using inv c by simp
  next
    case (Marked t' c')
    let ?r = "fetch_and_classify e t' c' s"
    have step: "pool_step e i c = (ws[i := Finished (fst ?r)], snd ?r)"
      using Marked i c by (simp add: pool_step_def split: prod.splits)
    have ev': "events (snd ?r) = events s0 @ (new @ [FetchPage t'])"
      using ev by (simp add: fetch_and_classify_effect)
    have vp: "visited_pages (snd ?r) = visited_pages s"
      by (simp add: fetch_and_classify_effect)
    have cnt: "length (filter (about_to_fetch t) (ws[i := Finished (fst ?r)]))
                 + count_list (new @ [FetchPage t']) (FetchPage t)
               = length (filter (about_to_fetch t) ws) + count_list new (FetchPage t)"
      using upd[of "Finished (fst ?r)"] Marked
      by (auto simp: about_to_fetch_def split: if_splits)
    show ?thesis
      unfolding step pool_inv_def fst_conv snd_conv vp
      using sub bound ev' cnt by (intro conjI exI[of _ "new @ [FetchPage t']"]) simp_all
  next
    case (Submitted t' c')
    show ?thesis
    proof (cases "t' \<in> visited_pages s")
      case True
      have step: "pool_step e i c = (ws[i := Finished []], s)"
        using Submitted True i c by (simp add: pool_step_def check_and_mark_def)
      have cnt: "length (filter (about_to_fetch t) (ws[i := Finished []]))
                   = length (filter (about_to_fetch t) ws)"
        using upd[of "Finished []"] Submitted by (simp add: about_to_fetch_def)
      show ?thesis
        unfolding step pool_inv_def fst_conv snd_conv
        using sub bound ev cnt by (intro conjI exI[of _ new]) simp_all
    next
      case False
      let ?s1 = "s\<lparr>visited_pages := insert t' (visited_pages s)\<rparr>"
      have step: "pool_step e i c = (ws[i := Marked t' c'], ?s1)"
        using Submitted False i c by (simp add: pool_step_def check_and_mark_def)
      have cnt: "length (filter (about_to_fetch t) (ws[i := Marked t' c']))
                   = length (filter (about_to_fetch t) ws) + (if t' = t then 1 else 0)"
        using upd[of "Marked t' c'"] Submitted by (simp add: about_to_fetch_def)
      have fresh: "t' = t \<Longrightarrow> length (filter (about_to_fetch t) ws) + count_list new (FetchPage t) = 0"
        using bound False by simp
      have out: "t' = t \<Longrightarrow> t \<notin> visited_pages s0"
        using False sub by auto
      show ?thesis
        unfolding step pool_inv_def fst_conv snd_conv
        using sub bound ev cnt fresh out
        by (intro conjI exI[of _ new]) (auto split: if_splits)
    qed
  qed
qed

lemma pool_inv_run:
  "pool_inv t s0 c \<Longrightarrow> pool_inv t s0 (run_pool e schedule c)"
  by (induction schedule arbitrary: c) (simp_all add: pool_inv_step)

lemma two_steps_are_process_page:
  "run_pool e [0, 0] ([Submitted t c], s)
     = ([Finished (fst (process_page e t c s))], snd (process_page e t c s))"
  by (simp add: pool_step_def process_page_def check_and_mark_def split: prod.splits)

text \<open>
  C5.  \<open>process_page\<close> leaves the title in the visited pages, and adds nothing else to
  them.  From any later state that still holds the title (the set only grows during a
  run, and a resumed run restores it) a call for the same title returns no entry and
  leaves the whole state, the issued requests included, as it was.  A call is the
  block under the lock followed by the \<open>try\<close> block, and when any number of calls run
  as workers of a pool, their steps interleaved in any order, at most one request is
  ever issued for a title, none if the title was visited before, and a worker that is
  about to fetch a title always finds it marked already: the mark is set under the
  lock, before the fetch, and only by the one worker that then fetches.
\<close>

theorem process_page_once:
  "page_title \<in> visited_pages (snd (process_page e page_title cat s))
   \<and> visited_pages (snd (process_page e page_title cat s)) = insert page_title (visited_pages s)
   \<and> (page_title \<notin> visited_pages s \<longrightarrow>
        process_page e page_title cat s
          = fetch_and_classify e page_title cat (s\<lparr>visited_pages := insert page_title (visited_pages s)\<rparr>)
        \<and> (\<exists>evs. events (snd (process_page e page_title cat s)) = events s @ FetchPage page_title # evs
               \<and> FetchPage page_title \<notin> set evs))
   \<and> (\<forall>e' cat' s2. page_title \<in> visited_pages s2 \<longrightarrow> process_page e' page_title cat' s2 = ([], s2))
   \<and> run_pool e [0, 0] ([Submitted page_title cat], s)
        = ([Finished (fst (process_page e page_title cat s))], snd (process_page e page_title cat s))
   \<and> (\<exists>new. events (snd (run_pool e schedule (submit calls, s))) = events s @ new
          \<and> count_list new (FetchPage page_title) \<le> 1
          \<and> (page_title \<in> visited_pages s \<longrightarrow> count_list new (FetchPage page_title) = 0))
   \<and> (\<forall>w \<in> set (fst (run_pool e schedule (submit calls, s))).
         about_to_fetch page_title w \<longrightarrow>
           page_title \<in> visited_pages (snd (run_pool e schedule (submit calls, s))))"
proof -
  have seq:
    "page_title \<in> visited_pages (snd (process_page e page_title cat s))
     \<and> visited_pages (snd (process_page e page_title cat s)) = insert page_title (visited_pages s)
     \<and> (page_title \<notin> visited_pages s \<longrightarrow>
          process_page e page_title cat s
            = fetch_and_classify e page_title cat (s\<lparr>visited_pages := insert page_title (visited_pages s)\<rparr>)
          \<and> (\<exists>evs. events (snd (process_page e page_title cat s)) = events s @ FetchPage page_title # evs
                 \<and> FetchPage page_title \<notin> set evs))
     \<and> (\<forall>e' cat' s2. page_title \<in> visited_pages s2 \<longrightarrow> process_page e' page_title cat' s2 = ([], s2))"
    by (auto simp: process_page_def check_and_mark_def fetch_and_classify_def read_clock_def Let_def
        split: sum.splits option.splits prod.splits if_splits)
  let ?c = "run_pool e schedule (submit calls, s)"
  have inv: "pool_inv page_title s ?c"
    by (intro pool_inv_run pool_inv_start)
  then obtain new where ev: "events (snd ?c) = events s @ new"
    and bound: "length (filter (about_to_fetch page_title) (fst ?c)) + count_list new (FetchPage page_title)
                  \<le> (if page_title \<in> visited_pages (snd ?c) \<and> page_title \<notin> visited_pages s then 1 else 0)"
    by (auto simp: pool_inv_def)
  have count: "\<exists>new. events (snd ?c) = events s @ new
          \<and> count_list new (FetchPage page_title) \<le> 1
          \<and> (page_title \<in> visited_pages s \<longrightarrow> count_list new (FetchPage page_title) = 0)"
    using ev bound by (intro exI[of _ new]) (auto split: if_splits)
  have marked: "\<forall>w \<in> set (fst ?c). about_to_fetch page_title w \<longrightarrow> page_title \<in> visited_pages (snd ?c)"
  proof (intro ballI impI)
    fix w assume "w \<in> set (fst ?c)" "about_to_fetch page_title w"
    then have "filter (about_to_fetch page_title) (fst ?c) \<noteq> []"
      by (auto simp: filter_empty_conv)
    then have "0 < length (filter (about_to_fetch page_title) (fst ?c))" by simp
    with bound show "page_title \<in> visited_pages (snd ?c)"
      by (auto split: if_splits)
  qed
  from seq two_steps_are_process_page[of e page_title cat s] count marked show ?thesis
    by blast
qed

theorem process_page_once_witness:
  "''Blaster'' \<notin> visited_pages one_entry_scraper
   \<and> process_page interrupting_env ''Blaster'' ''Fictional spacecraft''
        (snd (process_page quiet_env ''Blaster'' ''Science fiction weapons'' one_entry_scraper))
     = ([], snd (process_page quiet_env ''Blaster'' ''Science fiction weapons'' one_entry_scraper))
   \<and> events (snd (process_page quiet_env ''Blaster'' ''Science fiction weapons'' one_entry_scraper))
     = [FetchPage ''Blaster'']
   \<and> events (snd (run_pool quiet_env [0, 1, 1, 0]
                     (submit [(''Blaster'', ''Science fiction weapons''),
                              (''Blaster'', ''Fictional spacecraft'')], one_entry_scraper)))
     = [FetchPage ''Blaster'']"
proof -
  note once = process_page_once
    [of "''Blaster''" quiet_env "''Science fiction weapons''" one_entry_scraper]
  have fresh: "''Blaster'' \<notin> visited_pages one_entry_scraper"
    by (simp add: one_entry_scraper_def)
  from once have marked:
    "''Blaster'' \<in> visited_pages
       (snd (process_page quiet_env ''Blaster'' ''Science fiction weapons'' one_entry_scraper))"
    by blast
  from once have again:
    "\<forall>e' cat' s2. ''Blaster'' \<in> visited_pages s2 \<longrightarrow> process_page e' ''Blaster'' cat' s2 = ([], s2)"
    by blast
  from once fresh have
    "process_page quiet_env ''Blaster'' ''Science fiction weapons'' one_entry_scraper
       = fetch_and_classify quiet_env ''Blaster'' ''Science fiction weapons''
           (one_entry_scraper\<lparr>visited_pages := insert ''Blaster'' (visited_pages one_entry_scraper)\<rparr>)"
    by blast
  then have ev:
    "events (snd (process_page quiet_env ''Blaster'' ''Science fiction weapons'' one_entry_scraper))
       = [FetchPage ''Blaster'']"
    by (simp add: fetch_and_classify_def quiet_env_def one_entry_scraper_def)
  have pool: "events (snd (run_pool quiet_env [0, 1, 1, 0]
                     (submit [(''Blaster'', ''Science fiction weapons''),
                              (''Blaster'', ''Fictional spacecraft'')], one_entry_scraper)))
     = [FetchPage ''Blaster'']"
    by code_simp
  from fresh marked again ev pool show ?thesis by blast
qed

lemma grows_visited_categories:
  "grows cfg s s' \<Longrightarrow> k \<in> visited_categories s \<Longrightarrow> k \<in> visited_categories s'"
  by (auto simp: grows_def)

lemma process_pages_keeps_key:
  "k \<in> visited_categories s \<Longrightarrow> k \<in> visited_categories (snd (process_pages e ts c n s))"
  by (rule grows_visited_categories[OF grows_process_pages])

lemma scrape_subcategories_keeps_key:
  "k \<in> visited_categories s \<Longrightarrow>
   k \<in> visited_categories (snd (scrape_subcategories cfg e subs d n s))"
  by (rule grows_visited_categories[OF grows_scrape(2)])

lemma key_recorded:
  assumes "d \<le> max_category_depth cfg"
  shows "category_depth_key (str_replace ''Category:'' [] cn) d
           \<in> visited_categories (snd (scrape_category cfg e cn mp d s))"
proof (cases "category_depth_key (str_replace ''Category:'' [] cn) d \<in> visited_categories s")
  case True
  then show ?thesis
    using grows_scrape(1)[of cfg s e cn mp d] by (rule_tac grows_visited_categories)
next
  case False
  then show ?thesis using assms
    by (subst scrape_category.simps)
       (auto simp: Let_def split: sum.splits
             intro!: scrape_subcategories_keeps_key process_pages_keeps_key)
qed

text \<open>
  C6.  After a call of \<open>scrape_category\<close> within the depth bound, in any later state
  of the session (one whose visited categories include those the call left), a call
  with the same depth and a name with the same normalized form returns 0 and leaves
  the whole state as it was: no entry is added and no request is issued.  The first
  call records the composite key before anything else, and the second finds it.
\<close>

theorem second_expansion_is_idle:
  assumes "d \<le> max_category_depth cfg"
    and "visited_categories (snd (scrape_category cfg e cn mp d s)) \<subseteq> visited_categories s2"
    and "str_replace ''Category:'' [] cn' = str_replace ''Category:'' [] cn"
  shows "scrape_category cfg e' cn' mp' d s2 = (Inr 0, s2)"
proof -
  have "category_depth_key (str_replace ''Category:'' [] cn') d \<in> visited_categories s2"
    using key_recorded[OF assms(1), of cn e mp s] assms(2,3) by auto
  then show ?thesis
    by (subst scrape_category.simps) (simp add: Let_def)
qed

lemma normalize_example:
  "str_replace ''Category:'' [] ''Fictional robots'' = str_replace ''Category:'' [] ''Category:Fictional robots''"
  by code_simp

theorem second_expansion_is_idle_witness:
  "scrape_category example_settings interrupting_env ''Fictional robots'' 300 0
     (snd (scrape_category example_settings quiet_env ''Category:Fictional robots'' 500 0 one_entry_scraper))
   = (Inr 0, snd (scrape_category example_settings quiet_env ''Category:Fictional robots'' 500 0 one_entry_scraper))"
proof -
  have d: "0 \<le> max_category_depth example_settings" by (simp add: example_settings_def)
  show ?thesis
    by (rule second_expansion_is_idle[OF d subset_refl normalize_example])
qed

lemma grows_events:
  "grows cfg s s' \<Longrightarrow> \<exists>evs. events s' = events s @ evs"
  by (auto simp: grows_def)

lemma events_after_request:
  assumes "grows cfg (s\<lparr>events := events s @ [ev]\<rparr>) s'"
  shows "\<exists>evs. events s' = events s @ ev # evs"
  using grows_events[OF assms] by auto

lemma process_pages_after_request:
  "events s1 = events s @ [ev] \<Longrightarrow>
   \<exists>evs. events (snd (process_pages e ts c n s1)) = events s @ ev # evs"
  using grows_events[OF grows_process_pages[where s = s1 and e = e and ts = ts and c = c and n = n]] by auto

lemma scrape_subcategories_after_request:
  "\<exists>evs. events s1 = events s @ ev # evs \<Longrightarrow>
   \<exists>evs. events (snd (scrape_subcategories cfg e subs d n s1)) = events s @ ev # evs"
  using grows_events[OF grows_scrape(2)[where cfg = cfg and s = s1 and e = e and subs = subs and d = d and found = n]] by auto

lemma key_differs: "category_depth_key x d \<noteq> x"
  by (simp add: category_depth_key_def)

lemma reaches_request:
  assumes "d \<le> max_category_depth cfg"
    and "category_depth_key (str_replace ''Category:'' [] cn) d \<notin> visited_categories s"
    and "str_replace ''Category:'' [] cn \<notin> visited_categories s"
  shows "\<exists>evs. events (snd (scrape_category cfg e cn mp d s))
           = events s @ FetchMembers (str_replace ''Category:'' [] cn)
                          (min mp (max_pages_per_category cfg)) d # evs"
  using assms key_differs[of "str_replace ''Category:'' [] cn" d]
  by (subst scrape_category.simps)
     (auto simp: Let_def split: sum.splits
           intro!: scrape_subcategories_after_request process_pages_after_request)

text \<open>
  When the bare name is among the recorded keys, and the depth is positive, the second
  test does skip the category, after its own key has been recorded.
\<close>

lemma recheck_skips:
  assumes "d \<le> max_category_depth cfg" and "0 < d"
    and "category_depth_key (str_replace ''Category:'' [] cn) d \<notin> visited_categories s"
    and "str_replace ''Category:'' [] cn \<in> visited_categories s"
  shows "scrape_category cfg e cn mp d s =
           (Inr 0, s\<lparr>visited_categories :=
                       insert (category_depth_key (str_replace ''Category:'' [] cn) d)
                         (visited_categories s)\<rparr>)"
  using assms by (subst scrape_category.simps) (simp add: Let_def)

text \<open>
  C10.  Every string that \<open>scrape_category\<close> adds to the visited categories, at any
  level of the recursion, is a composite key; the key differs from the bare normalized
  name, so the bare name is never added, and from a state whose visited categories
  are all composite (the empty one in particular) they stay so.  Hence the second
  membership test, on the bare name, lets the call through to the request for the
  members whenever the bare name was not among the keys recorded before.
\<close>

theorem cycle_guard_keys:
  "(\<forall>k \<in> visited_categories (snd (scrape_category cfg e cn mp d s)) - visited_categories s.
       is_composite k)
   \<and> category_depth_key (str_replace ''Category:'' [] cn) d \<noteq> str_replace ''Category:'' [] cn
   \<and> ((\<forall>k \<in> visited_categories s. is_composite k) \<longrightarrow>
        (\<forall>k \<in> visited_categories (snd (scrape_category cfg e cn mp d s)). is_composite k))
   \<and> (d \<le> max_category_depth cfg
        \<and> category_depth_key (str_replace ''Category:'' [] cn) d \<notin> visited_categories s
        \<and> str_replace ''Category:'' [] cn \<notin> visited_categories s \<longrightarrow>
        (\<exists>evs. events (snd (scrape_category cfg e cn mp d s))
           = events s @ FetchMembers (str_replace ''Category:'' [] cn)
                          (min mp (max_pages_per_category cfg)) d # evs))"
proof (intro conjI impI)
  have g: "grows cfg s (snd (scrape_category cfg e cn mp d s))"
    by (rule grows_scrape(1))
  then show new: "\<forall>k \<in> visited_categories (snd (scrape_category cfg e cn mp d s)) - visited_categories s.
       is_composite k"
    by (simp add: grows_def)
  show "category_depth_key (str_replace ''Category:'' [] cn) d \<noteq> str_replace ''Category:'' [] cn"
    by (rule key_differs)
  show "\<forall>k \<in> visited_categories (snd (scrape_category cfg e cn mp d s)). is_composite k"
    if "\<forall>k \<in> visited_categories s. is_composite k"
    using that new by blast
  show "\<exists>evs. events (snd (scrape_category cfg e cn mp d s))
           = events s @ FetchMembers (str_replace ''Category:'' [] cn)
                          (min mp (max_pages_per_category cfg)) d # evs"
    if "d \<le> max_category_depth cfg
        \<and> category_depth_key (str_replace ''Category:'' [] cn) d \<notin> visited_categories s
        \<and> str_replace ''Category:'' [] cn \<notin> visited_categories s"
    using that by (intro reaches_request) auto
qed

lemma normalized_robots: "str_replace ''Category:'' [] ''Category:Fictional robots'' = ''Fictional robots''"
  by code_simp

lemma str_int_0: "str_int 0 = ''0''"
  by code_simp

theorem cycle_guard_keys_witness:
  "(\<exists>evs. events (snd (scrape_category example_settings quiet_env ''Category:Fictional robots'' 500 0
                        one_entry_scraper))
           = FetchMembers ''Fictional robots'' 500 0 # evs)
   \<and> ''Fictional robots_0''
         \<in> visited_categories
              (snd (scrape_category example_settings quiet_env ''Category:Fictional robots'' 500 0
                      one_entry_scraper))
   \<and> is_composite ''Fictional robots_0''"
proof -
  note keys = cycle_guard_keys
    [of example_settings quiet_env "''Category:Fictional robots''" 500 0 one_entry_scraper]
  have key: "category_depth_key (str_replace ''Category:'' [] ''Category:Fictional robots'') 0
               = ''Fictional robots_0''"
    by (simp add: category_depth_key_def normalized_robots str_int_0)
  have bound: "0 \<le> max_category_depth example_settings"
    by (simp add: example_settings_def)
  have fresh:
    "category_depth_key (str_replace ''Category:'' [] ''Category:Fictional robots'') 0
       \<notin> visited_categories one_entry_scraper"
    "str_replace ''Category:'' [] ''Category:Fictional robots'' \<notin> visited_categories one_entry_scraper"
    by (simp_all add: normalized_robots str_int_0 category_depth_key_def one_entry_scraper_def)
  from keys bound fresh have
    "\<exists>evs. events (snd (scrape_category example_settings quiet_env ''Category:Fictional robots'' 500 0
                        one_entry_scraper))
           = events one_entry_scraper
             @ FetchMembers (str_replace ''Category:'' [] ''Category:Fictional robots'')
                 (min 500 (max_pages_per_category example_settings)) 0 # evs"
    by blast
  then have first: "\<exists>evs. events (snd (scrape_category example_settings quiet_env
                        ''Category:Fictional robots'' 500 0 one_entry_scraper))
           = FetchMembers ''Fictional robots'' 500 0 # evs"
    by (simp add: normalized_robots example_settings_def one_entry_scraper_def)
  have recorded: "''Fictional robots_0''
         \<in> visited_categories
              (snd (scrape_category example_settings quiet_env ''Category:Fictional robots'' 500 0
                      one_entry_scraper))"
    using key_recorded[OF bound, of "''Category:Fictional robots''" quiet_env 500 one_entry_scraper]
    unfolding key .
  from fresh(1) have "''Fictional robots_0'' \<notin> visited_categories one_entry_scraper"
    unfolding key .
  with keys recorded have "is_composite ''Fictional robots_0''"
    by blast
  with first recorded show ?thesis by blast
qed









text \<open>An interrupted run and a run that ends normally, step by step.\<close>

lemma interrupted_run:
  "fst (scrape_all example_settings interrupting_env (Some [''Fictional robots'']) 10 one_entry_scraper)
     = None
   \<and> events (snd (scrape_all example_settings interrupting_env (Some [''Fictional robots'']) 10
                     one_entry_scraper))
     = [FetchMembers ''Fictional robots'' 500 0, SaveCheckpoint, ExportData [lightsaber]]"
  by code_simp

lemma normal_run:
  "fst (scrape_all example_settings quiet_env None 10 one_entry_scraper) = None
   \<and> events (snd (scrape_all example_settings quiet_env None 10 one_entry_scraper))
     = [FetchMembers ''Fictional technology'' 500 0, SaveCheckpoint,
        SaveCheckpoint,
        FetchMembers ''Fictional spacecraft'' 500 0, SaveCheckpoint,
        FetchMembers ''Fictional vehicles'' 500 0, SaveCheckpoint,
        FetchMembers ''Fictional robots'' 500 0, SaveCheckpoint,
        SaveCheckpoint, ExportData [lightsaber]]"
  by code_simp

end
